theory Spec2Isabelle
  imports
    Main
    "HOL-Library.Char_ord"
    "HOL-Library.List_Lexorder"
    "HOL-Library.Sublist"
begin

section \<open>Strings, numbers and sets as the TypeScript code uses them\<close>

text \<open>
  A JavaScript string is modelled as a \<^typ>\<open>string\<close>, a list of 8-bit characters; the order
  on strings used by \<open>Array.prototype.sort()\<close> without a comparator is the lexicographic
  order on the character codes, which is the order of \<^theory_text>\<open>List_Lexorder\<close> over
  \<^theory_text>\<open>Char_ord\<close>. Case conversion and whitespace are modelled on the ASCII range.
  The numeric settings are non-negative integers (\<^typ>\<open>nat\<close>).
\<close>

definition nl :: string where
  "nl = [CHR 0x0A]"

definition apostrophe :: string where
  "apostrophe = [CHR 0x27]"

text \<open>\<open>estimateTokens\<close> of read-many-files.ts: \<open>Math.ceil(text.length / 4)\<close>.\<close>

definition estimateTokens :: "string \<Rightarrow> nat" where
  "estimateTokens text = (length text + 3) div 4"

text \<open>\<open>Math.ceil(a / b)\<close> on non-negative integers with \<open>b > 0\<close>.\<close>

definition ceilDiv :: "nat \<Rightarrow> nat \<Rightarrow> nat" where
  "ceilDiv a b = (a + b - 1) div b"

text \<open>\<open>Math.round(a / 1024)\<close> on a non-negative integer: halves round upwards.\<close>

definition roundKB :: "nat \<Rightarrow> nat" where
  "roundKB a = (a + 512) div 1024"

text \<open>The decimal rendering of a number inside a template literal.\<close>

fun showNat :: "nat \<Rightarrow> string" where
  "showNat n =
     (if n < 10 then [char_of (48 + n)]
      else showNat (n div 10) @ [char_of (48 + n mod 10)])"

declare showNat.simps [simp del]

text \<open>\<open>String.prototype.toLowerCase\<close> on the ASCII letters.\<close>

definition lowerChar :: "char \<Rightarrow> char" where
  "lowerChar c =
     (if CHR ''A'' \<le> c \<and> c \<le> CHR ''Z'' then char_of (of_char c + (32::nat)) else c)"

definition toLowerCase :: "string \<Rightarrow> string" where
  "toLowerCase s = map lowerChar s"

text \<open>\<open>String.prototype.includes\<close>: the argument occurs as a contiguous substring.\<close>

definition stringIncludes :: "string \<Rightarrow> string \<Rightarrow> bool" where
  "stringIncludes s needle = sublist needle s"

text \<open>\<open>p.replace(/\\/g, '/')\<close>.\<close>

definition replaceBackslashes :: "string \<Rightarrow> string" where
  "replaceBackslashes p = map (\<lambda>c. if c = CHR 0x5C then CHR ''/'' else c) p"

text \<open>\<open>Array.prototype.join\<close>.\<close>

fun joinWith :: "string \<Rightarrow> string list \<Rightarrow> string" where
  "joinWith sep [] = []"
| "joinWith sep [x] = x"
| "joinWith sep (x # y # ys) = x @ sep @ joinWith sep (y # ys)"

text \<open>
  A JavaScript \<open>Set\<close> iterates in insertion order and ignores the insertion of a member;
  it is modelled as the list of its members in insertion order.
\<close>

definition setAdd :: "'a list \<Rightarrow> 'a \<Rightarrow> 'a list" where
  "setAdd s x = (if x \<in> set s then s else s @ [x])"

definition setAddAll :: "'a list \<Rightarrow> 'a list \<Rightarrow> 'a list" where
  "setAddAll s xs = fold (\<lambda>x acc. setAdd acc x) xs s"

section \<open>Path functions of Node used by read-many-files.ts\<close>

text \<open>
  \<open>path.extname\<close> and \<open>path.basename\<close> (POSIX) on a path without trailing slash, which is
  what \<open>glob\<close> with \<open>nodir\<close> and \<open>absolute\<close> returns. The extension runs from the last dot of
  the last segment to its end; it is empty when the segment has no dot, when its only
  dot is its first character, and for the segment \<open>..\<close>. \<open>path.basename(p, ext)\<close> removes
  \<open>ext\<close> from the end of the last segment, comparing characters exactly, unless the
  segment is \<open>ext\<close> itself.
\<close>

definition lastSegment :: "string \<Rightarrow> string" where
  "lastSegment p = rev (takeWhile (\<lambda>c. c \<noteq> CHR ''/'') (rev p))"

definition extname :: "string \<Rightarrow> string" where
  "extname p =
     (let b = lastSegment p;
          e = rev (takeWhile (\<lambda>c. c \<noteq> CHR ''.'') (rev b))
      in if CHR ''.'' \<notin> set b then []
         else if Suc (length e) = length b then []
         else if b = ''..'' then []
         else CHR ''.'' # e)"

definition basename :: "string \<Rightarrow> string \<Rightarrow> string" where
  "basename p ext =
     (let b = lastSegment p
      in if ext \<noteq> [] \<and> length ext \<le> length p
         then (if ext = p then []
               else if suffix ext b \<and> ext \<noteq> b then take (length b - length ext) b
               else b)
         else b)"

section \<open>read-many-files.ts\<close>

subsection \<open>Data\<close>

datatype TruncateMode = Warn | Truncate | Sample

datatype FileType = textFile | imageFile | pdfFile | otherFile

text \<open>A \<open>PartUnion\<close> is a string or a \<open>Part\<close> holding inline data (an image or a PDF).\<close>

datatype PartUnion = Text string | InlineData string

datatype PartListUnion = Single PartUnion | Parts "PartUnion list"

record SkipRecord =
  path :: string
  reason :: string

record ReadManyFilesParams =
  paths :: "string list"
  includePatterns :: "string list option"
  exclude :: "string list option"
  recursive :: "bool option"
  useDefaultExcludes :: "bool option"
  respect_git_ignore :: "bool option"
  respect_llxprt_ignore :: "bool option"

text \<open>What \<open>processSingleFileContent\<close> of fileUtils returns.\<close>

record ProcessedFileReadResult =
  readContent :: PartUnion
  error :: "string option"
  isTruncated :: bool

text \<open>
  The \<open>Config\<close> object as \<open>execute\<close> reads it: target directory, workspace context,
  file-filtering defaults (\<open>getFileFilteringOptions() ?? DEFAULT_FILE_FILTERING_OPTIONS\<close>),
  the patterns of .llxprtignore, the current context file name and the four ephemeral
  settings (\<^term>\<open>None\<close> when a setting is undefined).
\<close>

record Config =
  targetDir :: string
  workspaceDirectories :: "string list"
  isPathWithinWorkspace :: "string \<Rightarrow> bool"
  respectGitIgnoreDefault :: bool
  respectLlxprtIgnoreDefault :: bool
  llxprtIgnorePatterns :: "string list"
  currentContextFilename :: string
  tool_output_max_items :: "nat option"
  tool_output_max_tokens :: "nat option"
  tool_output_truncate_mode :: "TruncateMode option"
  tool_output_item_size_limit :: "nat option"

text \<open>
  The collaborators of \<open>execute\<close> that are not part of this file, as parameters:
  \<open>SchemaValidator.validate\<close>, \<open>glob\<close> (patterns, working directory, ignore patterns; \<^term>\<open>Inl\<close> is a
  thrown error), the ignore predicates of the file discovery service, \<open>path.relative\<close> and
  \<open>path.resolve\<close>, \<open>fs.stat\<close> (the size, or the message of the error thrown),
  \<open>detectFileType\<close> and \<open>processSingleFileContent\<close>.
\<close>

record Host =
  schemaValidate :: "ReadManyFilesParams \<Rightarrow> string option"
  glob :: "string list \<Rightarrow> string \<Rightarrow> string list \<Rightarrow> string + string list"
  shouldGitIgnoreFile :: "string \<Rightarrow> bool"
  shouldLlxprtIgnoreFile :: "string \<Rightarrow> bool"
  relative :: "string \<Rightarrow> string \<Rightarrow> string"
  resolve :: "string \<Rightarrow> string \<Rightarrow> string"
  stat :: "string \<Rightarrow> string + nat"
  detectFileType :: "string \<Rightarrow> FileType"
  processSingleFileContent :: "string \<Rightarrow> string \<Rightarrow> ProcessedFileReadResult"

text \<open>The local variables of \<open>execute\<close> that its loops update.\<close>

record ExecState =
  filesToConsider :: "string list"
  skippedFiles :: "SkipRecord list"
  processedFilesRelativePaths :: "string list"
  contentParts :: "PartUnion list"
  gitIgnoredCount :: nat
  llxprtIgnoredCount :: nat
  totalTokens :: nat

text \<open>
  The result of the tool. \<open>returnDisplay\<close> is markdown for the human reader; it is kept
  as the data it is rendered from: the validation error, the search error, the two
  counts of the file-count warning, or the processed paths, the token total and the
  skip records of a completed run.
\<close>

datatype Display =
    ParameterError string
  | Information
  | FileSearchError string
  | FileCountLimitExceeded nat nat
  | ResultSummary "string list" nat "SkipRecord list"

record ToolResult =
  llmContent :: PartListUnion
  returnDisplay :: Display

subsection \<open>Constants\<close>

definition DEFAULT_EXCLUDES :: "string \<Rightarrow> string list" where
  "DEFAULT_EXCLUDES contextFilename =
     [''**/node_modules/**'', ''**/.git/**'', ''**/.vscode/**'', ''**/.idea/**'',
      ''**/dist/**'', ''**/build/**'', ''**/coverage/**'', ''**/__pycache__/**'',
      ''**/*.pyc'', ''**/*.pyo'', ''**/*.bin'', ''**/*.exe'', ''**/*.dll'', ''**/*.so'',
      ''**/*.dylib'', ''**/*.class'', ''**/*.jar'', ''**/*.war'', ''**/*.zip'', ''**/*.tar'',
      ''**/*.gz'', ''**/*.bz2'', ''**/*.rar'', ''**/*.7z'', ''**/*.doc'', ''**/*.docx'',
      ''**/*.xls'', ''**/*.xlsx'', ''**/*.ppt'', ''**/*.pptx'', ''**/*.odt'', ''**/*.ods'',
      ''**/*.odp'', ''**/*.DS_Store'', ''**/.env'', ''**/'' @ contextFilename]"

definition DEFAULT_MAX_FILE_COUNT :: nat where
  "DEFAULT_MAX_FILE_COUNT = 50"

definition DEFAULT_MAX_TOKENS :: nat where
  "DEFAULT_MAX_TOKENS = 50000"

definition DEFAULT_TRUNCATE_MODE :: TruncateMode where
  "DEFAULT_TRUNCATE_MODE = Warn"

definition DEFAULT_FILE_SIZE_LIMIT :: nat where
  "DEFAULT_FILE_SIZE_LIMIT = 524288"

definition maxFileCount :: "Config \<Rightarrow> nat" where
  "maxFileCount cfg =
     (case tool_output_max_items cfg of Some n \<Rightarrow> n | None \<Rightarrow> DEFAULT_MAX_FILE_COUNT)"

definition maxTokens :: "Config \<Rightarrow> nat" where
  "maxTokens cfg =
     (case tool_output_max_tokens cfg of Some n \<Rightarrow> n | None \<Rightarrow> DEFAULT_MAX_TOKENS)"

definition truncateMode :: "Config \<Rightarrow> TruncateMode" where
  "truncateMode cfg =
     (case tool_output_truncate_mode cfg of Some m \<Rightarrow> m | None \<Rightarrow> DEFAULT_TRUNCATE_MODE)"

definition fileSizeLimit :: "Config \<Rightarrow> nat" where
  "fileSizeLimit cfg =
     (case tool_output_item_size_limit cfg of Some n \<Rightarrow> n | None \<Rightarrow> DEFAULT_FILE_SIZE_LIMIT)"

subsection \<open>Searching: the \<open>try\<close> block of \<open>execute\<close>\<close>

definition effectiveExcludes :: "Config \<Rightarrow> ReadManyFilesParams \<Rightarrow> string list" where
  "effectiveExcludes cfg params =
     (let exclude' = (case exclude params of Some e \<Rightarrow> e | None \<Rightarrow> [])
      in if (case useDefaultExcludes params of Some b \<Rightarrow> b | None \<Rightarrow> True)
         then DEFAULT_EXCLUDES (currentContextFilename cfg) @ exclude' @ llxprtIgnorePatterns cfg
         else exclude' @ llxprtIgnorePatterns cfg)"

definition searchPatterns :: "ReadManyFilesParams \<Rightarrow> string list" where
  "searchPatterns params =
     paths params @ (case includePatterns params of Some i \<Rightarrow> i | None \<Rightarrow> [])"

definition respectGitIgnore :: "Config \<Rightarrow> ReadManyFilesParams \<Rightarrow> bool" where
  "respectGitIgnore cfg params =
     (case respect_git_ignore params of Some b \<Rightarrow> b | None \<Rightarrow> respectGitIgnoreDefault cfg)"

definition respectLlxprtIgnore :: "Config \<Rightarrow> ReadManyFilesParams \<Rightarrow> bool" where
  "respectLlxprtIgnore cfg params =
     (case respect_llxprt_ignore params of Some b \<Rightarrow> b
      | None \<Rightarrow> respectLlxprtIgnoreDefault cfg)"

text \<open>
  The loop over the workspace directories: every directory is globbed and the entries are
  added to the set \<open>allEntries\<close>; an error thrown by \<open>glob\<close> leaves the \<open>try\<close> block.
\<close>

fun globDirs ::
  "(string \<Rightarrow> string + string list) \<Rightarrow> string list \<Rightarrow> string list \<Rightarrow> string + string list"
where
  "globDirs g [] allEntries = Inr allEntries"
| "globDirs g (dir # dirs) allEntries =
     (case g dir of
        Inl err \<Rightarrow> Inl err
      | Inr entriesInDir \<Rightarrow> globDirs g dirs (setAddAll allEntries entriesInDir))"

definition globEntries :: "Config \<Rightarrow> Host \<Rightarrow> ReadManyFilesParams \<Rightarrow> string + string list" where
  "globEntries cfg host params =
     globDirs
       (\<lambda>dir. glob host (map replaceBackslashes (searchPatterns params)) dir
                 (effectiveExcludes cfg params))
       (workspaceDirectories cfg) []"

text \<open>
  Modelled from the spec: \<open>filterFiles\<close> of the file discovery service is not part of
  these sources; by the contract of the ignore rule set (a pure \<open>matches(relativePath)\<close>)
  it keeps the paths that the selected ignore sources do not match.
\<close>

definition filterFiles :: "Host \<Rightarrow> string list \<Rightarrow> bool \<Rightarrow> bool \<Rightarrow> string list" where
  "filterFiles host filePaths git llxprt =
     filter (\<lambda>p. \<not> (git \<and> shouldGitIgnoreFile host p) \<and>
                 \<not> (llxprt \<and> shouldLlxprtIgnoreFile host p)) filePaths"

definition gitFilteredEntries ::
  "Config \<Rightarrow> Host \<Rightarrow> ReadManyFilesParams \<Rightarrow> string list \<Rightarrow> string list" where
  "gitFilteredEntries cfg host params entries =
     (if respectGitIgnore cfg params
      then map (resolve host (targetDir cfg))
             (filterFiles host (map (relative host (targetDir cfg)) entries) True False)
      else entries)"

definition finalFilteredEntries ::
  "Config \<Rightarrow> Host \<Rightarrow> ReadManyFilesParams \<Rightarrow> string list \<Rightarrow> string list" where
  "finalFilteredEntries cfg host params entries =
     (if respectLlxprtIgnore cfg params
      then map (resolve host (targetDir cfg))
             (filterFiles host
                (map (relative host (targetDir cfg)) (gitFilteredEntries cfg host params entries))
                False True)
      else gitFilteredEntries cfg host params entries)"

definition securityReason :: "string \<Rightarrow> string" where
  "securityReason absoluteFilePath =
     ''Security: Glob library returned path outside workspace. Path: '' @ absoluteFilePath"

definition emptyState :: ExecState where
  "emptyState =
     \<lparr>filesToConsider = [], skippedFiles = [], processedFilesRelativePaths = [],
      contentParts = [], gitIgnoredCount = 0, llxprtIgnoredCount = 0, totalTokens = 0\<rparr>"

text \<open>One iteration of \<open>for (const absoluteFilePath of entries)\<close>.\<close>

definition scanEntry ::
  "Config \<Rightarrow> bool \<Rightarrow> bool \<Rightarrow> string list \<Rightarrow> string list \<Rightarrow> string \<Rightarrow> ExecState \<Rightarrow> ExecState"
where
  "scanEntry cfg respectGit respectLlxprt gitFiltered finalFiltered absoluteFilePath st =
     (if \<not> isPathWithinWorkspace cfg absoluteFilePath
      then st\<lparr>skippedFiles := skippedFiles st @
                 [\<lparr>path = absoluteFilePath, reason = securityReason absoluteFilePath\<rparr>]\<rparr>
      else if respectGit \<and> absoluteFilePath \<notin> set gitFiltered
      then st\<lparr>gitIgnoredCount := gitIgnoredCount st + 1\<rparr>
      else if respectLlxprt \<and> absoluteFilePath \<notin> set finalFiltered
      then st\<lparr>llxprtIgnoredCount := llxprtIgnoredCount st + 1\<rparr>
      else st\<lparr>filesToConsider := setAdd (filesToConsider st) absoluteFilePath\<rparr>)"

definition scanLoop ::
  "Config \<Rightarrow> Host \<Rightarrow> ReadManyFilesParams \<Rightarrow> string list \<Rightarrow> ExecState" where
  "scanLoop cfg host params entries =
     fold (scanEntry cfg (respectGitIgnore cfg params) (respectLlxprtIgnore cfg params)
             (gitFilteredEntries cfg host params entries)
             (finalFilteredEntries cfg host params entries))
       entries emptyState"

text \<open>The two summary records pushed after the loop.\<close>

definition addIgnoredInfo :: "ExecState \<Rightarrow> ExecState" where
  "addIgnoredInfo st =
     (let st1 = (if gitIgnoredCount st > 0
                 then st\<lparr>skippedFiles := skippedFiles st @
                        [\<lparr>path = showNat (gitIgnoredCount st) @ '' file(s)'',
                          reason = ''git ignored''\<rparr>]\<rparr>
                 else st)
      in if llxprtIgnoredCount st1 > 0
         then st1\<lparr>skippedFiles := skippedFiles st1 @
                [\<lparr>path = showNat (llxprtIgnoredCount st1) @ '' file(s)'',
                  reason = ''llxprt ignored''\<rparr>]\<rparr>
         else st1)"

definition scanEntries ::
  "Config \<Rightarrow> Host \<Rightarrow> ReadManyFilesParams \<Rightarrow> string list \<Rightarrow> ExecState" where
  "scanEntries cfg host params entries = addIgnoredInfo (scanLoop cfg host params entries)"

subsection \<open>The file count limit\<close>

text \<open>
  The sampling loop \<open>for (let i = 0; i < sortedFiles.length; i += step)\<close>. It is entered
  with \<open>step = Math.ceil(sortedFiles.length / maxFileCount)\<close> where the length exceeds
  \<open>maxFileCount\<close>, so that \<open>step\<close> is at least 2 there; the test \<open>0 < step\<close> only makes the
  function total.
\<close>

function sampleLoop :: "string list \<Rightarrow> nat \<Rightarrow> nat \<Rightarrow> nat \<Rightarrow> string list \<Rightarrow> string list" where
  "sampleLoop sortedFiles maxCount step i sampledFiles =
     (if i < length sortedFiles \<and> 0 < step
      then sampleLoop sortedFiles maxCount step (i + step)
             (if length sampledFiles < maxCount then sampledFiles @ [sortedFiles ! i]
              else sampledFiles)
      else sampledFiles)"
  by pat_completeness auto
termination
  by (relation "measure (\<lambda>(sortedFiles, maxCount, step, i, sampledFiles). length sortedFiles - i)")
     auto

declare sampleLoop.simps [simp del]

text \<open>
  With \<open>maxFileCount = 0\<close> the step is \<open>Infinity\<close>: the loop body runs once, at \<open>i = 0\<close>,
  pushes nothing because \<open>0 < 0\<close> is false, and the loop ends.
\<close>

definition sampleFiles :: "nat \<Rightarrow> string list \<Rightarrow> string list" where
  "sampleFiles maxCount sortedFiles =
     (if maxCount = 0 then []
      else sampleLoop sortedFiles maxCount (ceilDiv (length sortedFiles) maxCount) 0 [])"

definition warnMessage :: "nat \<Rightarrow> nat \<Rightarrow> string" where
  "warnMessage found limit =
     ''Found '' @ showNat found @ '' files matching your pattern, but limiting to '' @
     showNat limit @
     '' files. Please use more specific patterns to narrow your search.''"

text \<open>
  The check \<open>sortedFiles.length > maxFileCount\<close>: \<^term>\<open>None\<close> is the early return of the
  \<open>warn\<close> mode, otherwise the new \<open>sortedFiles\<close> and the records pushed to \<open>skippedFiles\<close>.
\<close>

definition applyFileCountLimit ::
  "nat \<Rightarrow> TruncateMode \<Rightarrow> string list \<Rightarrow> (string list \<times> SkipRecord list) option" where
  "applyFileCountLimit maxCount mode sortedFiles =
     (if length sortedFiles > maxCount then
        (case mode of
           Warn \<Rightarrow> None
         | Sample \<Rightarrow>
             (let sampledFiles = sampleFiles maxCount sortedFiles;
                  originalCount = length sortedFiles
              in Some (sampledFiles,
                   [\<lparr>path = showNat (originalCount - length sampledFiles) @ '' file(s)'',
                     reason = ''sampling to stay within '' @ showNat maxCount @
                              '' file limit''\<rparr>]))
         | Truncate \<Rightarrow>
             (let truncatedCount = length sortedFiles - maxCount
              in Some (take maxCount sortedFiles,
                   [\<lparr>path = showNat truncatedCount @ '' file(s)'',
                     reason = ''truncated to stay within '' @ showNat maxCount @
                              '' file limit''\<rparr>])))
      else Some (sortedFiles, []))"

subsection \<open>Reading: the loop over \<open>sortedFiles\<close>\<close>

text \<open>
  The test \<open>requestedExplicitly\<close> for an image or a PDF: some pattern of \<open>params.paths\<close>
  contains, in lower case, the lower-cased extension of the file, or contains what
  \<open>path.basename\<close> leaves of the file name when given that lower-cased extension.
\<close>

definition requestedExplicitly :: "string list \<Rightarrow> string \<Rightarrow> bool" where
  "requestedExplicitly inputPatterns filePath =
     (let fileExtension = toLowerCase (extname filePath);
          fileNameWithoutExtension = basename filePath fileExtension
      in list_ex (\<lambda>pattern. stringIncludes (toLowerCase pattern) fileExtension \<or>
                             stringIncludes pattern fileNameWithoutExtension)
           inputPatterns)"

definition pushSkipped :: "ExecState \<Rightarrow> string \<Rightarrow> string \<Rightarrow> ExecState" where
  "pushSkipped st p r = st\<lparr>skippedFiles := skippedFiles st @ [\<lparr>path = p, reason = r\<rparr>]\<rparr>"

definition truncatedWarning :: string where
  "truncatedWarning =
     ''[WARNING: This file was truncated. To view the full content, use the '' @ apostrophe @
     ''read_file'' @ apostrophe @ '' tool on this specific file.]'' @ nl @ nl"

definition truncationMarker :: string where
  "truncationMarker = nl @ nl @ ''[CONTENT TRUNCATED DUE TO TOKEN LIMIT]''"

text \<open>
  \<open>contentToAdd\<close>: the separator line (the format \<open>--- {filePath} ---\<close> with the absolute
  path put in; a path is taken to hold no \<open>$\<close> replacement pattern), the warning for a file
  that \<open>processSingleFileContent\<close> truncated, and the content.
\<close>

definition contentToAdd :: "string \<Rightarrow> bool \<Rightarrow> string \<Rightarrow> string" where
  "contentToAdd filePath wasTruncated content =
     (let separator = ''--- '' @ filePath @ '' ---'';
          fileContentForLlm = (if wasTruncated then truncatedWarning else []) @ content
      in separator @ nl @ nl @ fileContentForLlm @ nl @ nl)"

text \<open>
  The branch of a file read as a string: the token check and the three overflow policies.
  The flag returned is \<^term>\<open>True\<close> when the iteration ends in \<open>break\<close>;
  \<open>sortedCount\<close> is \<open>sortedFiles.length\<close>.
\<close>

definition addTextContent ::
  "Config \<Rightarrow> nat \<Rightarrow> string \<Rightarrow> string \<Rightarrow> bool \<Rightarrow> string \<Rightarrow> ExecState \<Rightarrow> ExecState \<times> bool"
where
  "addTextContent cfg sortedCount filePath relativePathForDisplay wasTruncated content st =
     (let toAdd = contentToAdd filePath wasTruncated content;
          contentTokens = estimateTokens toAdd
      in if totalTokens st + contentTokens > maxTokens cfg
         then (case truncateMode cfg of
                 Warn \<Rightarrow>
                   (pushSkipped st
                      (showNat (sortedCount - length (processedFilesRelativePaths st)) @
                       '' remaining file(s)'')
                      (''would exceed token limit of '' @ showNat (maxTokens cfg)), True)
               | Truncate \<Rightarrow>
                   (let remainingTokens = maxTokens cfg - totalTokens st
                    in if remainingTokens > 100
                       then (pushSkipped
                               (st\<lparr>contentParts := contentParts st @
                                     [Text (take (remainingTokens * 4) toAdd @ truncationMarker)],
                                   processedFilesRelativePaths :=
                                     processedFilesRelativePaths st @ [relativePathForDisplay]\<rparr>)
                               relativePathForDisplay ''content truncated to fit token limit'',
                             True)
                       else (st, True))
               | Sample \<Rightarrow>
                   (pushSkipped st relativePathForDisplay ''skipped to stay within token limit'',
                    False))
         else (st\<lparr>totalTokens := totalTokens st + contentTokens,
                  contentParts := contentParts st @ [Text toAdd],
                  processedFilesRelativePaths :=
                    processedFilesRelativePaths st @ [relativePathForDisplay]\<rparr>, False))"

text \<open>The branch of an image or a PDF, counted as 85 tokens.\<close>

definition addInlineContent ::
  "Config \<Rightarrow> string \<Rightarrow> string \<Rightarrow> ExecState \<Rightarrow> ExecState \<times> bool" where
  "addInlineContent cfg relativePathForDisplay d st =
     (let estimatedTokens = 85
      in if totalTokens st + estimatedTokens > maxTokens cfg
         then (pushSkipped st relativePathForDisplay
                 ''would exceed token limit (non-text content)'', False)
         else (st\<lparr>totalTokens := totalTokens st + estimatedTokens,
                  contentParts := contentParts st @ [InlineData d],
                  processedFilesRelativePaths :=
                    processedFilesRelativePaths st @ [relativePathForDisplay]\<rparr>, False))"

definition notRequestedReason :: string where
  "notRequestedReason =
     ''asset file (image/pdf) was not explicitly requested by name or extension''"

text \<open>
  One iteration of \<open>for (const filePath of sortedFiles)\<close>. A read result counts as an
  error when its \<open>error\<close> is a non-empty string.
\<close>

definition processFile ::
  "Config \<Rightarrow> Host \<Rightarrow> string list \<Rightarrow> nat \<Rightarrow> string \<Rightarrow> ExecState \<Rightarrow> ExecState \<times> bool" where
  "processFile cfg host inputPatterns sortedCount filePath st =
     (let relativePathForDisplay = replaceBackslashes (relative host (targetDir cfg) filePath)
      in case stat host filePath of
           Inl err \<Rightarrow> (pushSkipped st relativePathForDisplay (''stat error: '' @ err), False)
         | Inr fileSize \<Rightarrow>
             if fileSize > fileSizeLimit cfg
             then (pushSkipped st relativePathForDisplay
                     (''file size ('' @ showNat (roundKB fileSize) @ ''KB) exceeds limit ('' @
                      showNat (roundKB (fileSizeLimit cfg)) @ ''KB)''), False)
             else
               let fileType = detectFileType host filePath
               in if (fileType = imageFile \<or> fileType = pdfFile) \<and>
                     \<not> requestedExplicitly inputPatterns filePath
                  then (pushSkipped st relativePathForDisplay notRequestedReason, False)
                  else
                    let fileReadResult = processSingleFileContent host filePath (targetDir cfg)
                    in if (case error fileReadResult of Some e \<Rightarrow> e \<noteq> [] | None \<Rightarrow> False)
                       then (pushSkipped st relativePathForDisplay
                               (''Read error: '' @ the (error fileReadResult)), False)
                       else (case readContent fileReadResult of
                               Text content \<Rightarrow>
                                 addTextContent cfg sortedCount filePath relativePathForDisplay
                                   (isTruncated fileReadResult) content st
                             | InlineData d \<Rightarrow>
                                 addInlineContent cfg relativePathForDisplay d st))"

fun processFiles ::
  "Config \<Rightarrow> Host \<Rightarrow> string list \<Rightarrow> nat \<Rightarrow> string list \<Rightarrow> ExecState \<Rightarrow> ExecState" where
  "processFiles cfg host inputPatterns sortedCount [] st = st"
| "processFiles cfg host inputPatterns sortedCount (filePath # rest) st =
     (case processFile cfg host inputPatterns sortedCount filePath st of
        (st', True) \<Rightarrow> st'
      | (st', False) \<Rightarrow> processFiles cfg host inputPatterns sortedCount rest st')"

subsection \<open>\<open>execute\<close>\<close>

text \<open>\<open>validateParams\<close>: the errors of the schema validator when they are a non-empty string.\<close>

definition validateParams :: "Host \<Rightarrow> ReadManyFilesParams \<Rightarrow> string option" where
  "validateParams host params =
     (case schemaValidate host params of
        Some errors \<Rightarrow> (if errors \<noteq> [] then Some errors else None)
      | None \<Rightarrow> None)"

definition noFilesMessage :: string where
  "noFilesMessage = ''No files matching the criteria were found or all were skipped.''"

definition finalResult :: "ExecState \<Rightarrow> ToolResult" where
  "finalResult st =
     \<lparr>llmContent = Parts (if contentParts st = [] then [Text noFilesMessage] else contentParts st),
      returnDisplay = ResultSummary (processedFilesRelativePaths st) (totalTokens st)
                        (skippedFiles st)\<rparr>"

text \<open>The part of \<open>execute\<close> after the \<open>try\<close> block.\<close>

definition readFiles :: "Config \<Rightarrow> Host \<Rightarrow> ReadManyFilesParams \<Rightarrow> ExecState \<Rightarrow> ToolResult" where
  "readFiles cfg host params st =
     (let sortedFiles = sort (filesToConsider st)
      in case applyFileCountLimit (maxFileCount cfg) (truncateMode cfg) sortedFiles of
           None \<Rightarrow>
             \<lparr>llmContent = Single (Text (warnMessage (length sortedFiles) (maxFileCount cfg))),
              returnDisplay = FileCountLimitExceeded (length sortedFiles) (maxFileCount cfg)\<rparr>
         | Some (limitedFiles, skipped) \<Rightarrow>
             finalResult
               (processFiles cfg host (paths params) (length limitedFiles) limitedFiles
                  (st\<lparr>skippedFiles := skippedFiles st @ skipped\<rparr>)))"

definition execute :: "Config \<Rightarrow> Host \<Rightarrow> ReadManyFilesParams \<Rightarrow> ToolResult" where
  "execute cfg host params =
     (case validateParams host params of
        Some validationError \<Rightarrow>
          \<lparr>llmContent = Single (Text (''Error: Invalid parameters for ReadManyFiles. Reason: '' @
                                       validationError)),
           returnDisplay = ParameterError validationError\<rparr>
      | None \<Rightarrow>
          if searchPatterns params = []
          then \<lparr>llmContent = Single (Text ''No search paths or include patterns provided.''),
                returnDisplay = Information\<rparr>
          else (case globEntries cfg host params of
                  Inl err \<Rightarrow>
                    \<lparr>llmContent = Single (Text (''Error during file search: '' @ err)),
                     returnDisplay = FileSearchError err\<rparr>
                | Inr entries \<Rightarrow> readFiles cfg host params (scanEntries cfg host params entries)))"

section \<open>memoryDiscovery.ts\<close>

subsection \<open>Paths and the collaborators\<close>

text \<open>
  The directories and files that the discovery handles are resolved absolute paths. Such
  a path is modelled as the list of its segments, the empty list being the filesystem
  root: \<open>path.dirname\<close> drops the last segment and leaves the root unchanged,
  \<open>path.join\<close> with a name appends it, and two paths are the same string exactly when
  they have the same segments. \<open>pathString\<close> writes the path as the string it stands for.
\<close>

type_synonym fspath = "string list"

definition dirname :: "fspath \<Rightarrow> fspath" where
  "dirname p = butlast p"

definition pathString :: "fspath \<Rightarrow> string" where
  "pathString p = (if p = [] then ''/'' else concat (map (\<lambda>s. CHR ''/'' # s) p))"

datatype ImportFormat = Flat | Tree

text \<open>
  What the module takes from outside, as parameters: the name of the config directory and
  the context file names of memoryTool, \<open>os.homedir\<close>, \<open>path.resolve\<close>,
  \<open>fs.access\<close> with \<open>R_OK\<close> (whether it succeeds), \<open>fs.lstat\<close> followed by
  \<open>isDirectory\<close> (false when \<open>lstat\<close> throws), \<open>bfsFileSearch\<close> from a directory for a file
  name with a directory bound, \<open>fs.readFile\<close> followed by \<open>processImports\<close>
  (\<^term>\<open>None\<close> when either throws), \<open>path.isAbsolute\<close> and \<open>path.relative\<close>.
\<close>

record MemoryHost =
  LLXPRT_CONFIG_DIR :: string
  getAllContextFilenames :: "string list"
  homedir :: string
  pathResolve :: "string \<Rightarrow> fspath"
  isReadable :: "fspath \<Rightarrow> bool"
  isDirectory :: "fspath \<Rightarrow> bool"
  bfsFileSearch :: "fspath \<Rightarrow> string \<Rightarrow> nat \<Rightarrow> fspath list"
  readFileWithImports :: "string \<Rightarrow> ImportFormat \<Rightarrow> string option"
  pathIsAbsolute :: "string \<Rightarrow> bool"
  pathRelative :: "string \<Rightarrow> string \<Rightarrow> string"

record GeminiFileContent =
  filePath :: string
  content :: "string option"

record HierarchicalMemory =
  memoryContent :: string
  fileCount :: nat

subsection \<open>\<open>findProjectRoot\<close>\<close>

text \<open>
  The loop of \<open>findProjectRoot\<close>, from a resolved directory: the first directory, going
  upwards, that holds a directory named \<open>.git\<close>; \<^term>\<open>None\<close> once the root has been
  tried without success.
\<close>

function findProjectRoot :: "MemoryHost \<Rightarrow> fspath \<Rightarrow> fspath option" where
  "findProjectRoot env currentDir =
     (if isDirectory env (currentDir @ [''.git'']) then Some currentDir
      else if dirname currentDir = currentDir then None
      else findProjectRoot env (dirname currentDir))"
  by pat_completeness auto
termination
  by (relation "measure (\<lambda>(env, currentDir). length currentDir)")
     (auto simp: dirname_def intro: diff_less)

declare findProjectRoot.simps [simp del]

subsection \<open>The upward scan\<close>

text \<open>
  The loop \<open>while (currentDir && currentDir !== path.dirname(currentDir))\<close>; a resolved
  path is never the empty string. \<open>unshift\<close> puts a path found in front of the list.
\<close>

function upwardScan ::
  "MemoryHost \<Rightarrow> string \<Rightarrow> fspath \<Rightarrow> fspath \<Rightarrow> fspath \<Rightarrow> fspath \<Rightarrow> fspath list \<Rightarrow> fspath list"
where
  "upwardScan env contextFilename resolvedHome globalMemoryPath ultimateStopDir currentDir
       upwardPaths =
     (if currentDir \<noteq> dirname currentDir then
        if currentDir = resolvedHome @ [LLXPRT_CONFIG_DIR env] then upwardPaths
        else
          let potentialPath = currentDir @ [contextFilename];
              upwardPaths' =
                (if isReadable env potentialPath \<and> potentialPath \<noteq> globalMemoryPath
                 then potentialPath # upwardPaths else upwardPaths)
          in if currentDir = ultimateStopDir then upwardPaths'
             else upwardScan env contextFilename resolvedHome globalMemoryPath ultimateStopDir
                    (dirname currentDir) upwardPaths'
      else upwardPaths)"
  by pat_completeness auto
termination
  by (relation "measure (\<lambda>(env, f, h, g, s, currentDir, u). length currentDir)")
     (auto simp: dirname_def intro: diff_less)

declare upwardScan.simps [simp del]

definition globalMemoryPathOf :: "MemoryHost \<Rightarrow> string \<Rightarrow> string \<Rightarrow> fspath" where
  "globalMemoryPathOf env userHomePath contextFilename =
     pathResolve env userHomePath @ [LLXPRT_CONFIG_DIR env, contextFilename]"

definition ultimateStopDirOf :: "MemoryHost \<Rightarrow> string \<Rightarrow> fspath \<Rightarrow> fspath" where
  "ultimateStopDirOf env userHomePath resolvedCwd =
     (case findProjectRoot env resolvedCwd of
        Some projectRoot \<Rightarrow> dirname projectRoot
      | None \<Rightarrow> dirname (pathResolve env userHomePath))"

text \<open>The list \<open>upwardPaths\<close> when the loop has ended.\<close>

definition upwardPathsOf :: "MemoryHost \<Rightarrow> string \<Rightarrow> string \<Rightarrow> string \<Rightarrow> fspath list" where
  "upwardPathsOf env dir userHomePath contextFilename =
     (let resolvedCwd = pathResolve env dir
      in upwardScan env contextFilename (pathResolve env userHomePath)
           (globalMemoryPathOf env userHomePath contextFilename)
           (ultimateStopDirOf env userHomePath resolvedCwd) resolvedCwd [])"

text \<open>The downward paths after \<open>downwardPaths.sort()\<close>, which orders them as strings.\<close>

definition downwardPathsOf :: "MemoryHost \<Rightarrow> string \<Rightarrow> string \<Rightarrow> nat \<Rightarrow> fspath list" where
  "downwardPathsOf env dir contextFilename maxDirs =
     sort_key pathString (bfsFileSearch env (pathResolve env dir) contextFilename maxDirs)"

subsection \<open>\<open>getContextFilePathsInternalForEachDir\<close> and \<open>getContextFilePathsInternal\<close>\<close>

text \<open>The body of \<open>for (const contextFilename of contextFilenames)\<close>, on the set \<open>allPaths\<close>.\<close>

definition addPathsForFilename ::
  "MemoryHost \<Rightarrow> string \<Rightarrow> string \<Rightarrow> nat \<Rightarrow> string \<Rightarrow> fspath list \<Rightarrow> fspath list" where
  "addPathsForFilename env dir userHomePath maxDirs contextFilename allPaths =
     (let globalMemoryPath = globalMemoryPathOf env userHomePath contextFilename;
          allPaths1 = (if isReadable env globalMemoryPath then setAdd allPaths globalMemoryPath
                       else allPaths)
      in if dir \<noteq> []
         then setAddAll
                (setAddAll allPaths1 (upwardPathsOf env dir userHomePath contextFilename))
                (downwardPathsOf env dir contextFilename maxDirs)
         else allPaths1)"

definition getContextFilePathsInternalForEachDir ::
  "MemoryHost \<Rightarrow> string \<Rightarrow> string \<Rightarrow> fspath list \<Rightarrow> nat \<Rightarrow> fspath list" where
  "getContextFilePathsInternalForEachDir env dir userHomePath extensionContextFilePaths maxDirs =
     setAddAll
       (fold (addPathsForFilename env dir userHomePath maxDirs) (getAllContextFilenames env) [])
       extensionContextFilePaths"

definition getContextFilePathsInternal ::
  "MemoryHost \<Rightarrow> string \<Rightarrow> string list \<Rightarrow> string \<Rightarrow> fspath list \<Rightarrow> nat \<Rightarrow> fspath list" where
  "getContextFilePathsInternal env currentWorkingDirectory includeDirectoriesToReadContext
       userHomePath extensionContextFilePaths maxDirs =
     (let dirs = setAddAll [] (includeDirectoriesToReadContext @ [currentWorkingDirectory]);
          paths = concat (map (\<lambda>dir. getContextFilePathsInternalForEachDir env dir userHomePath
                                        extensionContextFilePaths maxDirs) dirs)
      in setAddAll [] paths)"

subsection \<open>Reading and concatenating\<close>

definition readContextFiles ::
  "MemoryHost \<Rightarrow> string list \<Rightarrow> ImportFormat \<Rightarrow> GeminiFileContent list" where
  "readContextFiles env filePaths importFormat =
     map (\<lambda>p. \<lparr>filePath = p, content = readFileWithImports env p importFormat\<rparr>) filePaths"

text \<open>\<open>String.prototype.trim\<close>, with the ASCII white space and line terminators.\<close>

definition isWhiteSpace :: "char \<Rightarrow> bool" where
  "isWhiteSpace c = (c \<in> set [CHR 0x09, CHR 0x0A, CHR 0x0B, CHR 0x0C, CHR 0x0D, CHR 0x20])"

definition trim :: "string \<Rightarrow> string" where
  "trim s = rev (dropWhile isWhiteSpace (rev (dropWhile isWhiteSpace s)))"

definition contextBlock :: "string \<Rightarrow> string \<Rightarrow> string" where
  "contextBlock displayPath trimmedContent =
     ''--- Context from: '' @ displayPath @ '' ---'' @ nl @ trimmedContent @ nl @
     ''--- End of Context from: '' @ displayPath @ '' ---''"

text \<open>The function mapped over the items whose content is a string.\<close>

definition instructionBlock :: "MemoryHost \<Rightarrow> string \<Rightarrow> GeminiFileContent \<Rightarrow> string option" where
  "instructionBlock env currentWorkingDirectoryForDisplay item =
     (let trimmedContent = trim (the (content item))
      in if length trimmedContent = 0 then None
         else
           let displayPath =
                 (if pathIsAbsolute env (filePath item)
                  then pathRelative env currentWorkingDirectoryForDisplay (filePath item)
                  else filePath item)
           in Some (contextBlock displayPath trimmedContent))"

definition concatenateInstructions ::
  "MemoryHost \<Rightarrow> GeminiFileContent list \<Rightarrow> string \<Rightarrow> string" where
  "concatenateInstructions env instructionContents currentWorkingDirectoryForDisplay =
     joinWith (nl @ nl)
       (map the
          (filter (\<lambda>block. block \<noteq> None)
             (map (instructionBlock env currentWorkingDirectoryForDisplay)
                (filter (\<lambda>item. content item \<noteq> None) instructionContents))))"

definition loadServerHierarchicalMemory ::
  "MemoryHost \<Rightarrow> string \<Rightarrow> string list \<Rightarrow> fspath list \<Rightarrow> ImportFormat \<Rightarrow> nat \<Rightarrow>
   HierarchicalMemory" where
  "loadServerHierarchicalMemory env currentWorkingDirectory includeDirectoriesToReadContext
       extensionContextFilePaths importFormat maxDirs =
     (let filePaths = map pathString
            (getContextFilePathsInternal env currentWorkingDirectory
               includeDirectoriesToReadContext (homedir env) extensionContextFilePaths maxDirs)
      in if length filePaths = 0 then \<lparr>memoryContent = [], fileCount = 0\<rparr>
         else
           let contentsWithPaths = readContextFiles env filePaths importFormat;
               combinedInstructions =
                 concatenateInstructions env contentsWithPaths currentWorkingDirectory
           in \<lparr>memoryContent = combinedInstructions, fileCount = length contentsWithPaths\<rparr>)"

subsection \<open>The levels of the upward scan, as a list\<close>

text \<open>
  A second description of the upward scan, in the words of its specification, to compare
  the loop with. \<open>ancestors\<close> lists a directory and its parents below the filesystem
  root, the directory first. \<open>visitedLevels\<close> are the levels the scan examines: it walks
  along the ancestors of the start directory, ends before the global config directory
  when it meets it, and otherwise ends after the stop directory when it meets it.
\<close>

function ancestors :: "fspath \<Rightarrow> fspath list" where
  "ancestors d = (if d = [] then [] else d # ancestors (butlast d))"
  by pat_completeness auto
termination
  by (relation "measure length") (auto intro: diff_less)

declare ancestors.simps [simp del]

definition visitedLevels :: "fspath \<Rightarrow> fspath \<Rightarrow> fspath \<Rightarrow> fspath list" where
  "visitedLevels configDir stopDir start =
     (let beforeConfig = takeWhile (\<lambda>d. d \<noteq> configDir) (ancestors start)
      in takeWhile (\<lambda>d. d \<noteq> stopDir) beforeConfig @
         take 1 (dropWhile (\<lambda>d. d \<noteq> stopDir) beforeConfig))"

section \<open>Concrete inputs\<close>

text \<open>Twenty candidate paths in sorted order.\<close>

definition twentyFiles :: "string list" where
  "twentyFiles =
     [''/ws/f00'', ''/ws/f01'', ''/ws/f02'', ''/ws/f03'', ''/ws/f04'', ''/ws/f05'', ''/ws/f06'',
      ''/ws/f07'', ''/ws/f08'', ''/ws/f09'', ''/ws/f10'', ''/ws/f11'', ''/ws/f12'', ''/ws/f13'',
      ''/ws/f14'', ''/ws/f15'', ''/ws/f16'', ''/ws/f17'', ''/ws/f18'', ''/ws/f19'']"

text \<open>
  A workspace \<open>/ws\<close>, which is also the target directory, in which \<open>glob\<close> reports two
  files and, besides, a path outside the workspace. The three limits and the policy are
  left open. \<open>relative\<close> and \<open>resolve\<close> are those of a target directory one level below
  the root.
\<close>

definition demoConfigWith :: "nat option \<Rightarrow> nat option \<Rightarrow> TruncateMode option \<Rightarrow> Config" where
  "demoConfigWith maxItems maxTok mode =
     \<lparr>targetDir = ''/ws'', workspaceDirectories = [''/ws''],
      isPathWithinWorkspace = (\<lambda>p. prefix ''/ws/'' p),
      respectGitIgnoreDefault = True, respectLlxprtIgnoreDefault = True,
      llxprtIgnorePatterns = [], currentContextFilename = ''LLXPRT.md'',
      tool_output_max_items = maxItems, tool_output_max_tokens = maxTok,
      tool_output_truncate_mode = mode, tool_output_item_size_limit = None\<rparr>"

definition demoEntries :: "string list" where
  "demoEntries = [''/ws/b.txt'', ''/etc/passwd'', ''/ws/a.txt'']"

definition demoHost :: Host where
  "demoHost =
     \<lparr>schemaValidate = (\<lambda>params. None),
      glob = (\<lambda>patterns dir ignore. Inr demoEntries),
      shouldGitIgnoreFile = (\<lambda>p. False),
      shouldLlxprtIgnoreFile = (\<lambda>p. False),
      relative = (\<lambda>from to.
         if prefix (from @ ''/'') to then drop (Suc (length from)) to else ''..'' @ to),
      resolve = (\<lambda>from p. if prefix ''../'' p then drop 2 p else from @ ''/'' @ p),
      stat = (\<lambda>p. Inr 5),
      detectFileType = (\<lambda>p. textFile),
      processSingleFileContent =
        (\<lambda>p t. \<lparr>readContent = Text (''content of '' @ p), error = None, isTruncated = False\<rparr>)\<rparr>"

definition demoParams :: ReadManyFilesParams where
  "demoParams =
     \<lparr>paths = [''*''], includePatterns = None, exclude = None, recursive = None,
      useDefaultExcludes = None, respect_git_ignore = None, respect_llxprt_ignore = None\<rparr>"

text \<open>A file system that differs from the one of \<open>demoHost\<close> outside the workspace only.\<close>

definition otherStat :: "string \<Rightarrow> string + nat" where
  "otherStat p = (if prefix ''/ws/'' p then Inr 5 else Inl ''EACCES'')"

definition otherDetectFileType :: "string \<Rightarrow> FileType" where
  "otherDetectFileType p = (if prefix ''/ws/'' p then textFile else otherFile)"

definition otherProcessSingleFileContent :: "string \<Rightarrow> string \<Rightarrow> ProcessedFileReadResult" where
  "otherProcessSingleFileContent p t =
     (if prefix ''/ws/'' p
      then \<lparr>readContent = Text (''content of '' @ p), error = None, isTruncated = False\<rparr>
      else \<lparr>readContent = Text ''root:x:0:0'', error = None, isTruncated = False\<rparr>)"

text \<open>The same workspace with files of 500 characters, and with files detected as images.\<close>

definition bigHost :: Host where
  "bigHost =
     demoHost\<lparr>processSingleFileContent :=
       (\<lambda>p t. \<lparr>readContent = Text (replicate 500 (CHR ''x'')), error = None,
               isTruncated = False\<rparr>)\<rparr>"

definition imageHost :: Host where
  "imageHost =
     demoHost\<lparr>detectFileType := (\<lambda>p. imageFile),
       processSingleFileContent :=
         (\<lambda>p t. \<lparr>readContent = InlineData ''iVBORw0KGgo='', error = None,
                 isTruncated = False\<rparr>)\<rparr>"

text \<open>
  Directory trees for the context file discovery: the recognised file names, the home
  directory, the readable files, the directories named \<open>.git\<close>, the files in the order in
  which the breadth-first search reports them, and the contents of the files that can be
  read. Strings are resolved by splitting them at the slashes.
\<close>

fun splitSegments :: "string \<Rightarrow> string \<Rightarrow> string list" where
  "splitSegments cur [] = (if cur = [] then [] else [cur])"
| "splitSegments cur (c # cs) =
     (if c = CHR ''/''
      then (if cur = [] then splitSegments [] cs else cur # splitSegments [] cs)
      else splitSegments (cur @ [c]) cs)"

definition treeHost ::
  "string list \<Rightarrow> string \<Rightarrow> fspath list \<Rightarrow> fspath list \<Rightarrow> fspath list \<Rightarrow>
   (string \<times> string) list \<Rightarrow> MemoryHost" where
  "treeHost names home readableFiles gitDirs bfsOrder contents =
     \<lparr>LLXPRT_CONFIG_DIR = ''.llxprt'', getAllContextFilenames = names, homedir = home,
      pathResolve = splitSegments [],
      isReadable = (\<lambda>p. p \<in> set readableFiles),
      isDirectory = (\<lambda>p. p \<in> set gitDirs),
      bfsFileSearch = (\<lambda>dir name maxDirs.
         filter (\<lambda>p. prefix dir p \<and> p \<noteq> [] \<and> last p = name) bfsOrder),
      readFileWithImports = (\<lambda>p importFormat. map_of contents p),
      pathIsAbsolute = (\<lambda>s. prefix ''/'' s),
      pathRelative = (\<lambda>from to.
         if prefix (from @ ''/'') to then drop (Suc (length from)) to else to)\<rparr>"

text \<open>
  A project whose root, marked by \<open>.git\<close>, lies two levels above the working directory
  \<open>/home/u/proj/pkg/app\<close>, with a global file and a file three levels below.
\<close>

definition projectTree :: MemoryHost where
  "projectTree =
     treeHost [''CTX.md''] ''/home/u''
       [[''home'', ''u'', ''.llxprt'', ''CTX.md''],
        [''home'', ''u'', ''proj'', ''CTX.md''],
        [''home'', ''u'', ''proj'', ''pkg'', ''app'', ''CTX.md''],
        [''home'', ''u'', ''proj'', ''pkg'', ''app'', ''lib'', ''x'', ''y'', ''CTX.md'']]
       [[''home'', ''u'', ''proj'', ''.git'']]
       [[''home'', ''u'', ''proj'', ''pkg'', ''app'', ''CTX.md''],
        [''home'', ''u'', ''proj'', ''pkg'', ''app'', ''lib'', ''x'', ''y'', ''CTX.md'']]
       []"

text \<open>Two recognised file names, each with a global file and a file in \<open>/w\<close>.\<close>

definition twoNamesTree :: MemoryHost where
  "twoNamesTree =
     treeHost [''A.md'', ''B.md''] ''/home/u''
       [[''home'', ''u'', ''.llxprt'', ''A.md''], [''home'', ''u'', ''.llxprt'', ''B.md''],
        [''w'', ''A.md''], [''w'', ''B.md''], [''w'', ''sub'', ''A.md'']]
       [[''w'', ''.git'']]
       [[''w'', ''A.md''], [''w'', ''B.md''], [''w'', ''sub'', ''A.md'']]
       []"

text \<open>No \<open>.git\<close> anywhere; the home directory lies three levels below the root.\<close>

definition noGitTree :: MemoryHost where
  "noGitTree =
     treeHost [''CTX.md''] ''/data/homes/u''
       [[''data'', ''CTX.md''], [''data'', ''homes'', ''u'', ''proj'', ''CTX.md'']]
       [] [] []"

text \<open>Three context files in \<open>/w\<close>: one with text, one blank, one that cannot be read.\<close>

definition threeFilesTree :: MemoryHost where
  "threeFilesTree =
     treeHost [''CTX.md''] ''/home/u''
       [[''w'', ''CTX.md''], [''w'', ''lib'', ''CTX.md''], [''w'', ''src'', ''CTX.md'']]
       []
       [[''w'', ''CTX.md''], [''w'', ''src'', ''CTX.md''], [''w'', ''lib'', ''CTX.md'']]
       [(''/w/CTX.md'', ''  Be brief.'' @ [CHR 0x0A]), (''/w/lib/CTX.md'', ''   '')]"

section \<open>Arithmetic of the sampling stride\<close>

lemma mult_less_ceilDiv:
  assumes "0 < s"
  shows "(j * s < n) = (j < ceilDiv n s)"
proof -
  have "(j < ceilDiv n s) = (Suc j \<le> (n + s - 1) div s)"
    by (simp add: ceilDiv_def Suc_le_eq)
  also have "\<dots> = (Suc j * s \<le> n + s - 1)"
    using assms by (simp add: less_eq_div_iff_mult_less_eq)
  also have "\<dots> = (j * s < n)"
    using assms by (cases n) auto
  finally show ?thesis by simp
qed

lemma ceilDiv_mult_ge:
  assumes "0 < m"
  shows "n \<le> ceilDiv n m * m"
proof -
  have "n + m - 1 < ((n + m - 1) div m) * m + m"
    using assms by (metis add.commute div_mult_mod_eq add_less_cancel_left mod_less_divisor)
  then show ?thesis using assms by (simp add: ceilDiv_def)
qed

lemma ceilDiv_pos:
  assumes "0 < m" and "0 < n"
  shows "0 < ceilDiv n m"
  using ceilDiv_mult_ge [OF assms(1), of n] assms(2) by (cases "ceilDiv n m") auto

lemma ceilDiv_ceilDiv_le:
  assumes "0 < m" and "0 < n"
  shows "ceilDiv n (ceilDiv n m) \<le> m"
proof -
  let ?s = "ceilDiv n m"
  have s: "0 < ?s" by (rule ceilDiv_pos [OF assms])
  have "\<not> m < ceilDiv n ?s"
  proof
    assume "m < ceilDiv n ?s"
    then have "m * ?s < n" using mult_less_ceilDiv [OF s, of m n] by simp
    moreover have "n \<le> ?s * m" by (rule ceilDiv_mult_ge [OF assms(1)])
    ultimately show False by (simp add: mult.commute)
  qed
  then show ?thesis by simp
qed

text \<open>
  The loop invariant: after \<open>j\<close> rounds the index is \<open>j * step\<close> and the sample holds the
  items at the first \<open>j\<close> multiples of \<open>step\<close>. The bound \<open>maxCount\<close> never stops a push
  when the number of multiples below the length is at most \<open>maxCount\<close>.
\<close>

lemma sampleLoop_stride:
  assumes "0 < step" and "ceilDiv (length files) step \<le> m"
    and "j \<le> ceilDiv (length files) step"
  shows "sampleLoop files m step (j * step) (map (\<lambda>k. files ! (k * step)) [0..<j]) =
         map (\<lambda>k. files ! (k * step)) [0..<ceilDiv (length files) step]"
  using assms(3)
proof (induction "ceilDiv (length files) step - j" arbitrary: j)
  case 0
  then have j: "j = ceilDiv (length files) step" by simp
  then have "\<not> j * step < length files"
    using mult_less_ceilDiv [OF assms(1), of j "length files"] by simp
  then have "sampleLoop files m step (j * step) (map (\<lambda>k. files ! (k * step)) [0..<j]) =
        map (\<lambda>k. files ! (k * step)) [0..<j]"
    by (subst sampleLoop.simps) simp
  then show ?case using j by simp
next
  case (Suc d)
  then have lt: "j < ceilDiv (length files) step" by simp
  then have i: "j * step < length files"
    using mult_less_ceilDiv [OF assms(1), of j "length files"] by simp
  have len: "j < m" using lt assms(2) by simp
  have "sampleLoop files m step (Suc j * step) (map (\<lambda>k. files ! (k * step)) [0..<Suc j]) =
        map (\<lambda>k. files ! (k * step)) [0..<ceilDiv (length files) step]"
    using Suc lt by (intro Suc.hyps(1)) auto
  moreover have "sampleLoop files m step (j * step) (map (\<lambda>k. files ! (k * step)) [0..<j]) =
        sampleLoop files m step (Suc j * step) (map (\<lambda>k. files ! (k * step)) [0..<Suc j])"
    using i len assms(1) by (subst sampleLoop.simps) (simp add: add.commute)
  ultimately show ?case by simp
qed

lemma showNat_5: "showNat 5 = ''5''"
  by code_simp

lemma showNat_15: "showNat 15 = ''15''"
  by code_simp

section \<open>The sample policy of the file count limit\<close>

text \<open>
  Claim C4. When the sorted candidate list is longer than \<open>maxItems\<close> (at least 1), the
  sample policy selects the items at the multiples of the stride
  \<open>ceil(total / maxItems)\<close>, from index 0 on, as long as the index is inside the list, and
  pushes one skip record that gives the number of omitted files. With 20 files and
  \<open>maxItems = 5\<close> these are the indices 0, 4, 8, 12, 16 and the record counts 15.
\<close>

theorem sample_selects_stride:
  assumes "maxCount < length sortedFiles" and "0 < maxCount"
  shows "applyFileCountLimit maxCount Sample sortedFiles =
     (let total = length sortedFiles;
          stride = ceilDiv total maxCount;
          selected = map (\<lambda>k. sortedFiles ! (k * stride)) [0..<ceilDiv total stride]
      in Some (selected,
           [\<lparr>path = showNat (total - length selected) @ '' file(s)'',
             reason = ''sampling to stay within '' @ showNat maxCount @ '' file limit''\<rparr>]))"
proof -
  let ?n = "length sortedFiles"
  let ?s = "ceilDiv ?n maxCount"
  have n: "0 < ?n" using assms(1) by linarith
  have s: "0 < ?s" by (rule ceilDiv_pos [OF assms(2) n])
  have "sampleLoop sortedFiles maxCount ?s (0 * ?s) (map (\<lambda>k. sortedFiles ! (k * ?s)) [0..<0]) =
        map (\<lambda>k. sortedFiles ! (k * ?s)) [0..<ceilDiv ?n ?s]"
    by (rule sampleLoop_stride [OF s ceilDiv_ceilDiv_le [OF assms(2) n]]) simp
  then have "sampleFiles maxCount sortedFiles =
        map (\<lambda>k. sortedFiles ! (k * ?s)) [0..<ceilDiv ?n ?s]"
    using assms(2) by (simp add: sampleFiles_def)
  then show ?thesis
    using assms(1) by (simp add: applyFileCountLimit_def Let_def)
qed

theorem sample_selects_stride_witness:
  "(5::nat) < length twentyFiles \<and> (0::nat) < 5 \<and>
   applyFileCountLimit 5 Sample twentyFiles =
     Some ([''/ws/f00'', ''/ws/f04'', ''/ws/f08'', ''/ws/f12'', ''/ws/f16''],
           [\<lparr>path = ''15 file(s)'', reason = ''sampling to stay within 5 file limit''\<rparr>])"
proof -
  have len: "length twentyFiles = 20" by (simp add: twentyFiles_def)
  have h1: "(5::nat) < length twentyFiles" using len by simp
  have c1: "ceilDiv 20 5 = 4" by (simp add: ceilDiv_def)
  have c2: "ceilDiv 20 4 = 5" by (simp add: ceilDiv_def)
  have up: "[0..<5] = [0, 1, 2, 3, 4::nat]" by (simp add: upt_rec)
  show ?thesis
    using sample_selects_stride [OF h1] len
    by (simp add: Let_def c1 c2 up showNat_15 showNat_5) (simp add: twentyFiles_def)
qed

text \<open>
  With a limit of 0 the stride is infinite and the loop pushes nothing: every candidate is
  omitted.
\<close>

lemma sample_with_zero_limit:
  "sortedFiles \<noteq> [] \<Longrightarrow>
   applyFileCountLimit 0 Sample sortedFiles =
     Some ([], [\<lparr>path = showNat (length sortedFiles) @ '' file(s)'',
                 reason = ''sampling to stay within '' @ showNat 0 @ '' file limit''\<rparr>])"
  by (simp add: applyFileCountLimit_def sampleFiles_def)

section \<open>The scan loop\<close>


lemma set_setAdd: "set (setAdd s x) = insert x (set s)"
  by (auto simp: setAdd_def)

lemma distinct_setAdd: "distinct s \<Longrightarrow> distinct (setAdd s x)"
  by (simp add: setAdd_def)

lemma scan_fold_filesToConsider:
  "set (filesToConsider (fold (scanEntry cfg g l gf ff) es st)) =
   set (filesToConsider st) \<union>
   {p \<in> set es. isPathWithinWorkspace cfg p \<and> (g \<longrightarrow> p \<in> set gf) \<and> (l \<longrightarrow> p \<in> set ff)}"
  by (induction es arbitrary: st) (auto simp: scanEntry_def set_setAdd)

lemma scan_fold_distinct:
  "distinct (filesToConsider st) \<Longrightarrow>
   distinct (filesToConsider (fold (scanEntry cfg g l gf ff) es st))"
  by (induction es arbitrary: st) (simp_all add: scanEntry_def distinct_setAdd)

lemma scan_fold_core:
  "contentParts (fold (scanEntry cfg g l gf ff) es st) = contentParts st \<and>
   processedFilesRelativePaths (fold (scanEntry cfg g l gf ff) es st) =
     processedFilesRelativePaths st \<and>
   totalTokens (fold (scanEntry cfg g l gf ff) es st) = totalTokens st"
  by (induction es arbitrary: st) (simp_all add: scanEntry_def)

lemma addIgnoredInfo_fields:
  "filesToConsider (addIgnoredInfo st) = filesToConsider st"
  "contentParts (addIgnoredInfo st) = contentParts st"
  "processedFilesRelativePaths (addIgnoredInfo st) = processedFilesRelativePaths st"
  "totalTokens (addIgnoredInfo st) = totalTokens st"
  by (simp_all add: addIgnoredInfo_def Let_def)



lemma scanEntries_filesToConsider:
  "set (filesToConsider (scanEntries cfg host params entries)) =
   {p \<in> set entries. isPathWithinWorkspace cfg p \<and>
      (respectGitIgnore cfg params \<longrightarrow> p \<in> set (gitFilteredEntries cfg host params entries)) \<and>
      (respectLlxprtIgnore cfg params \<longrightarrow> p \<in> set (finalFilteredEntries cfg host params entries))}"
  by (simp add: scanEntries_def addIgnoredInfo_fields scanLoop_def scan_fold_filesToConsider
      emptyState_def)

lemma scanEntries_distinct: "distinct (filesToConsider (scanEntries cfg host params entries))"
  by (simp add: scanEntries_def addIgnoredInfo_fields scanLoop_def scan_fold_distinct
      emptyState_def)

lemma scanEntries_core:
  "contentParts (scanEntries cfg host params entries) = []"
  "processedFilesRelativePaths (scanEntries cfg host params entries) = []"
  "totalTokens (scanEntries cfg host params entries) = 0"
  by (simp_all add: scanEntries_def addIgnoredInfo_fields scanLoop_def scan_fold_core
      emptyState_def)


section \<open>The read loop: files and skip records\<close>

lemma processFile_congruent:
  assumes "stat host' fp = stat host fp"
    and "detectFileType host' fp = detectFileType host fp"
    and "processSingleFileContent host' fp = processSingleFileContent host fp"
    and "relative host' = relative host"
  shows "processFile cfg host' inputPatterns n fp st =
         processFile cfg host inputPatterns n fp st"
  unfolding processFile_def assms by (rule refl)

lemma processFiles_congruent:
  assumes "\<forall>p \<in> set files. stat host' p = stat host p \<and>
             detectFileType host' p = detectFileType host p \<and>
             processSingleFileContent host' p = processSingleFileContent host p"
    and "relative host' = relative host"
  shows "processFiles cfg host' inputPatterns n files st =
         processFiles cfg host inputPatterns n files st"
  using assms(1)
proof (induction files arbitrary: st)
  case Nil
  then show ?case by simp
next
  case (Cons f fs)
  then have "processFile cfg host' inputPatterns n f st = processFile cfg host inputPatterns n f st"
    using assms(2) by (intro processFile_congruent) auto
  with Cons show ?case by (simp split: prod.splits bool.splits)
qed



section \<open>The run on the concrete workspace, stage by stage\<close>

lemma demo_validate: "validateParams demoHost demoParams = None"
  by (simp add: validateParams_def demoHost_def)

lemma demo_patterns: "searchPatterns demoParams = [''*'']"
  by (simp add: searchPatterns_def demoParams_def)

lemma demo_paths: "paths demoParams = [''*'']"
  by (simp add: demoParams_def)

lemma demo_glob: "globEntries (demoConfigWith a b c) demoHost demoParams = Inr demoEntries"
  by (simp add: globEntries_def demoConfigWith_def demoHost_def demoEntries_def setAddAll_def
      setAdd_def)

lemma demo_within:
  "isPathWithinWorkspace (demoConfigWith a b c) ''/ws/a.txt''"
  "isPathWithinWorkspace (demoConfigWith a b c) ''/ws/b.txt''"
  "\<not> isPathWithinWorkspace (demoConfigWith a b c) ''/etc/passwd''"
  by (simp_all add: demoConfigWith_def)

lemma demo_respect:
  "respectGitIgnore (demoConfigWith a b c) demoParams"
  "respectLlxprtIgnore (demoConfigWith a b c) demoParams"
  by (simp_all add: respectGitIgnore_def respectLlxprtIgnore_def demoConfigWith_def demoParams_def)

lemma demo_roundtrip:
  "resolve demoHost (targetDir (demoConfigWith a b c))
     (relative demoHost (targetDir (demoConfigWith a b c)) ''/ws/a.txt'') = ''/ws/a.txt''"
  "resolve demoHost (targetDir (demoConfigWith a b c))
     (relative demoHost (targetDir (demoConfigWith a b c)) ''/ws/b.txt'') = ''/ws/b.txt''"
  "resolve demoHost (targetDir (demoConfigWith a b c))
     (relative demoHost (targetDir (demoConfigWith a b c)) ''/etc/passwd'') = ''/etc/passwd''"
  by (simp_all add: demoHost_def demoConfigWith_def)

lemma demo_gitFiltered:
  "gitFilteredEntries (demoConfigWith a b c) demoHost demoParams demoEntries =
     [''/ws/b.txt'', ''/etc/passwd'', ''/ws/a.txt'']"
  by (simp add: gitFilteredEntries_def demo_respect filterFiles_def demoEntries_def demo_roundtrip)
     (simp add: demoHost_def)

lemma demo_finalFiltered:
  "finalFilteredEntries (demoConfigWith a b c) demoHost demoParams demoEntries =
     [''/ws/b.txt'', ''/etc/passwd'', ''/ws/a.txt'']"
  by (simp add: finalFilteredEntries_def demo_respect filterFiles_def demo_gitFiltered
      demo_roundtrip)
     (simp add: demoHost_def)

lemma demo_scanLoop:
  "scanLoop (demoConfigWith a b c) demoHost demoParams demoEntries =
     emptyState\<lparr>filesToConsider := [''/ws/b.txt'', ''/ws/a.txt''],
       skippedFiles := [\<lparr>path = ''/etc/passwd'', reason = securityReason ''/etc/passwd''\<rparr>]\<rparr>"
  unfolding scanLoop_def demo_gitFiltered demo_finalFiltered
  by (simp add: demoEntries_def scanEntry_def demo_within demo_respect emptyState_def setAdd_def)

lemma demo_scan:
  "scanEntries (demoConfigWith a b c) demoHost demoParams demoEntries =
     emptyState\<lparr>filesToConsider := [''/ws/b.txt'', ''/ws/a.txt''],
       skippedFiles := [\<lparr>path = ''/etc/passwd'', reason = securityReason ''/etc/passwd''\<rparr>]\<rparr>"
  by (simp add: scanEntries_def demo_scanLoop addIgnoredInfo_def emptyState_def)

lemma demo_sort: "sort [''/ws/b.txt'', ''/ws/a.txt''] = [''/ws/a.txt'', ''/ws/b.txt'']"
  by code_simp

lemma demo_tokens:
  "estimateTokens (contentToAdd ''/ws/a.txt'' False ''content of /ws/a.txt'') = 11"
  "estimateTokens (contentToAdd ''/ws/b.txt'' False ''content of /ws/b.txt'') = 11"
  by (simp_all add: contentToAdd_def estimateTokens_def nl_def)

lemma demo_processFile_a:
  "processFile (demoConfigWith a b c) demoHost ip n ''/ws/a.txt'' st =
     addTextContent (demoConfigWith a b c) n ''/ws/a.txt'' ''a.txt'' False
       ''content of /ws/a.txt'' st"
  by (simp add: processFile_def demoConfigWith_def demoHost_def fileSizeLimit_def
      DEFAULT_FILE_SIZE_LIMIT_def replaceBackslashes_def)

lemma demo_processFile_b:
  "processFile (demoConfigWith a b c) demoHost ip n ''/ws/b.txt'' st =
     addTextContent (demoConfigWith a b c) n ''/ws/b.txt'' ''b.txt'' False
       ''content of /ws/b.txt'' st"
  by (simp add: processFile_def demoConfigWith_def demoHost_def fileSizeLimit_def
      DEFAULT_FILE_SIZE_LIMIT_def replaceBackslashes_def)

lemma demo_limits:
  "maxFileCount (demoConfigWith (Some m) b c) = m"
  "maxFileCount (demoConfigWith None b c) = 50"
  "maxTokens (demoConfigWith a (Some t) c) = t"
  "maxTokens (demoConfigWith a None c) = 50000"
  "truncateMode (demoConfigWith a b (Some mode)) = mode"
  "truncateMode (demoConfigWith a b None) = Warn"
  by (simp_all add: maxFileCount_def maxTokens_def truncateMode_def demoConfigWith_def
      DEFAULT_MAX_FILE_COUNT_def DEFAULT_MAX_TOKENS_def DEFAULT_TRUNCATE_MODE_def)

lemma addTextContent_fits:
  assumes "totalTokens st + estimateTokens (contentToAdd fp t c) \<le> maxTokens cfg"
  shows "addTextContent cfg n fp rel t c st =
     (st\<lparr>totalTokens := totalTokens st + estimateTokens (contentToAdd fp t c),
         contentParts := contentParts st @ [Text (contentToAdd fp t c)],
         processedFilesRelativePaths := processedFilesRelativePaths st @ [rel]\<rparr>, False)"
  using assms by (simp add: addTextContent_def Let_def)

lemma demo_readFiles:
  "readFiles (demoConfigWith None None None) demoHost demoParams
     (emptyState\<lparr>filesToConsider := [''/ws/b.txt'', ''/ws/a.txt''],
        skippedFiles := [\<lparr>path = ''/etc/passwd'', reason = securityReason ''/etc/passwd''\<rparr>]\<rparr>) =
     \<lparr>llmContent = Parts
        [Text (contentToAdd ''/ws/a.txt'' False ''content of /ws/a.txt''),
         Text (contentToAdd ''/ws/b.txt'' False ''content of /ws/b.txt'')],
      returnDisplay = ResultSummary [''a.txt'', ''b.txt''] 22
        [\<lparr>path = ''/etc/passwd'', reason = securityReason ''/etc/passwd''\<rparr>]\<rparr>"
  by (simp add: readFiles_def emptyState_def demo_sort applyFileCountLimit_def demo_limits
      demo_paths demo_processFile_a demo_processFile_b addTextContent_fits demo_tokens
      finalResult_def)

lemma demo_execute:
  "execute (demoConfigWith None None None) demoHost demoParams =
     \<lparr>llmContent = Parts
        [Text (contentToAdd ''/ws/a.txt'' False ''content of /ws/a.txt''),
         Text (contentToAdd ''/ws/b.txt'' False ''content of /ws/b.txt'')],
      returnDisplay = ResultSummary [''a.txt'', ''b.txt''] 22
        [\<lparr>path = ''/etc/passwd'', reason = securityReason ''/etc/passwd''\<rparr>]\<rparr>"
  by (simp add: execute_def demo_validate demo_patterns demo_glob demo_scan demo_readFiles)

section \<open>The files that are read come from the candidates\<close>

lemma sampleLoop_subset:
  "set (sampleLoop files m step i acc) \<subseteq> set acc \<union> set files"
proof (induction files m step i acc rule: sampleLoop.induct)
  case (1 files m step i acc)
  show ?case
  proof (cases "i < length files \<and> 0 < step")
    case True
    then have "set (sampleLoop files m step i acc) \<subseteq>
        set (if length acc < m then acc @ [files ! i] else acc) \<union> set files"
      using "1.IH" by (subst sampleLoop.simps) simp
    moreover have "files ! i \<in> set files" using True by simp
    ultimately show ?thesis by (auto split: if_splits)
  next
    case False
    then show ?thesis by (subst sampleLoop.simps) auto
  qed
qed

lemma applyFileCountLimit_subset:
  assumes "applyFileCountLimit m mode files = Some (limited, skipped)"
  shows "set limited \<subseteq> set files"
proof (cases "m < length files")
  case False
  then show ?thesis using assms by (simp add: applyFileCountLimit_def)
next
  case True
  show ?thesis
  proof (cases mode)
    case Warn
    then show ?thesis using assms True by (simp add: applyFileCountLimit_def)
  next
    case Truncate
    then show ?thesis
      using assms True by (auto simp: applyFileCountLimit_def Let_def dest: in_set_takeD)
  next
    case Sample
    then have "limited = sampleFiles m files"
      using assms True by (auto simp: applyFileCountLimit_def Let_def)
    then show ?thesis
      using sampleLoop_subset [of files m "ceilDiv (length files) m" 0 "[]"]
      by (auto simp: sampleFiles_def)
  qed
qed

lemma readFiles_congruent:
  assumes "\<forall>p \<in> set (filesToConsider st). stat host' p = stat host p \<and>
             detectFileType host' p = detectFileType host p \<and>
             processSingleFileContent host' p = processSingleFileContent host p"
    and "relative host' = relative host"
  shows "readFiles cfg host' params st = readFiles cfg host params st"
proof (cases "applyFileCountLimit (maxFileCount cfg) (truncateMode cfg) (sort (filesToConsider st))")
  case None
  then show ?thesis by (simp add: readFiles_def)
next
  case (Some a)
  obtain limited skipped where a: "a = (limited, skipped)" by (cases a)
  have "set limited \<subseteq> set (filesToConsider st)"
    using applyFileCountLimit_subset [of "maxFileCount cfg" "truncateMode cfg"
        "sort (filesToConsider st)" limited skipped] Some a by simp
  then have "processFiles cfg host' (paths params) (length limited) limited
               (st\<lparr>skippedFiles := skippedFiles st @ skipped\<rparr>) =
             processFiles cfg host (paths params) (length limited) limited
               (st\<lparr>skippedFiles := skippedFiles st @ skipped\<rparr>)"
    using assms by (intro processFiles_congruent) auto
  then show ?thesis using Some a by (simp add: readFiles_def)
qed




section \<open>The workspace boundary\<close>



section \<open>A path outside the workspace does not end the run\<close>




section \<open>The warn policy of the file count limit\<close>

text \<open>
  With a limit of one file and two candidates the warn policy returns the warning alone:
  the first candidate is not read and no skip record is made for the excess.
\<close>

theorem warn_count_overflow_counterexample:
  "truncateMode (demoConfigWith (Some 1) None None) = Warn \<and>
   maxFileCount (demoConfigWith (Some 1) None None) = 1 \<and>
   filesToConsider (scanEntries (demoConfigWith (Some 1) None None) demoHost demoParams
     demoEntries) = [''/ws/b.txt'', ''/ws/a.txt''] \<and>
   execute (demoConfigWith (Some 1) None None) demoHost demoParams =
     \<lparr>llmContent = Single (Text
        ''Found 2 files matching your pattern, but limiting to 1 files. Please use more specific patterns to narrow your search.''),
      returnDisplay = FileCountLimitExceeded 2 1\<rparr>"
proof -
  have s2: "showNat (Suc (Suc 0)) = ''2''" by code_simp
  have s1: "showNat (Suc 0) = ''1''" by code_simp
  show ?thesis
    by (simp add: execute_def demo_validate demo_patterns demo_glob demo_scan readFiles_def
        emptyState_def demo_sort applyFileCountLimit_def demo_limits warnMessage_def s1 s2)
qed

text \<open>
  Claim C3, amended. When more candidates than \<open>maxItems\<close> are found under the warn
  policy, \<open>read_many_files\<close> returns only a warning that states the number found and
  the limit: whatever the files hold, no file is read, no content is returned and no
  skip record is part of the result.
\<close>

theorem warn_count_overflow_returns_only_warning:
  assumes "validateParams host params = None"
    and "searchPatterns params \<noteq> []"
    and "globEntries cfg host params = Inr entries"
    and "truncateMode cfg = Warn"
    and "maxFileCount cfg < length (filesToConsider (scanEntries cfg host params entries))"
  shows "execute cfg (host\<lparr>stat := s, detectFileType := d, processSingleFileContent := r\<rparr>)
           params =
         \<lparr>llmContent = Single (Text (warnMessage
              (length (filesToConsider (scanEntries cfg host params entries)))
              (maxFileCount cfg))),
          returnDisplay = FileCountLimitExceeded
              (length (filesToConsider (scanEntries cfg host params entries)))
              (maxFileCount cfg)\<rparr>"
proof -
  let ?host' = "host\<lparr>stat := s, detectFileType := d, processSingleFileContent := r\<rparr>"
  have v: "validateParams ?host' params = validateParams host params"
    by (simp add: validateParams_def)
  have g: "globEntries cfg ?host' params = globEntries cfg host params"
    by (simp add: globEntries_def)
  have sc: "scanEntries cfg ?host' params entries = scanEntries cfg host params entries"
    by (simp add: scanEntries_def scanLoop_def gitFilteredEntries_def finalFilteredEntries_def
        filterFiles_def)
  have "applyFileCountLimit (maxFileCount cfg) (truncateMode cfg)
          (sort (filesToConsider (scanEntries cfg host params entries))) = None"
    using assms(4,5) by (simp add: applyFileCountLimit_def)
  then have "readFiles cfg ?host' params (scanEntries cfg host params entries) =
      \<lparr>llmContent = Single (Text (warnMessage
           (length (filesToConsider (scanEntries cfg host params entries)))
           (maxFileCount cfg))),
       returnDisplay = FileCountLimitExceeded
           (length (filesToConsider (scanEntries cfg host params entries)))
           (maxFileCount cfg)\<rparr>"
    by (simp add: readFiles_def)
  then show ?thesis
    using assms(1,2,3) by (simp add: execute_def v g sc)
qed

theorem warn_count_overflow_returns_only_warning_witness:
  "validateParams demoHost demoParams = None \<and>
   searchPatterns demoParams \<noteq> [] \<and>
   globEntries (demoConfigWith (Some 1) None None) demoHost demoParams = Inr demoEntries \<and>
   truncateMode (demoConfigWith (Some 1) None None) = Warn \<and>
   maxFileCount (demoConfigWith (Some 1) None None) <
     length (filesToConsider
       (scanEntries (demoConfigWith (Some 1) None None) demoHost demoParams demoEntries)) \<and>
   execute (demoConfigWith (Some 1) None None)
     (demoHost\<lparr>stat := otherStat, detectFileType := otherDetectFileType,
        processSingleFileContent := otherProcessSingleFileContent\<rparr>) demoParams =
     \<lparr>llmContent = Single (Text (warnMessage 2 1)),
      returnDisplay = FileCountLimitExceeded 2 1\<rparr>"
proof -
  let ?cfg = "demoConfigWith (Some 1) None None"
  have h2: "searchPatterns demoParams \<noteq> []" by (simp add: demo_patterns)
  have h4: "truncateMode ?cfg = Warn" by (simp add: demo_limits)
  have len: "length (filesToConsider (scanEntries ?cfg demoHost demoParams demoEntries)) = 2"
    by (simp add: demo_scan emptyState_def)
  have m: "maxFileCount ?cfg = 1" by (simp add: demo_limits)
  have h5: "maxFileCount ?cfg <
      length (filesToConsider (scanEntries ?cfg demoHost demoParams demoEntries))"
    unfolding len m by simp
  show ?thesis
    using warn_count_overflow_returns_only_warning
      [OF demo_validate h2 demo_glob [of "Some 1" None None] h4 h5,
        where s = otherStat and d = otherDetectFileType and r = otherProcessSingleFileContent]
      demo_validate h2 demo_glob [of "Some 1" None None] h4 h5 len m
    by simp
qed

section \<open>The truncate policy of the token limit\<close>

lemma estimateTokens_take: "estimateTokens (take (k * 4) s) \<le> k"
proof -
  have "length (take (k * 4) s) \<le> k * 4" by simp
  then show ?thesis unfolding estimateTokens_def by linarith
qed

text \<open>
  With a budget of 5 tokens the first file, which costs 11 tokens, leaves a remainder of
  5 tokens: nothing of it is included, no marker is written, and the run ends.
\<close>

theorem truncate_includes_prefix_counterexample:
  "truncateMode (demoConfigWith None (Some 5) (Some Truncate)) = Truncate \<and>
   maxTokens (demoConfigWith None (Some 5) (Some Truncate)) = 5 \<and>
   estimateTokens (contentToAdd ''/ws/a.txt'' False ''content of /ws/a.txt'') = 11 \<and>
   execute (demoConfigWith None (Some 5) (Some Truncate)) demoHost demoParams =
     \<lparr>llmContent = Parts
        [Text ''No files matching the criteria were found or all were skipped.''],
      returnDisplay = ResultSummary [] 0
        [\<lparr>path = ''/etc/passwd'', reason = securityReason ''/etc/passwd''\<rparr>]\<rparr>"
  by (simp add: execute_def demo_validate demo_patterns demo_glob demo_scan readFiles_def
      emptyState_def demo_sort applyFileCountLimit_def demo_limits demo_paths
      demo_processFile_a addTextContent_def demo_tokens finalResult_def noFilesMessage_def)

text \<open>
  Claim C5, amended. Under the truncate policy, when a file that passed the size check
  and the asset check and was read as text would push the token total past
  \<open>maxAggregateTokens\<close>, the loop stops at this file and no further file is processed.
  When the remaining budget is more than 100 tokens, the part pushed is the first
  \<open>4 * remaining\<close> characters of the separator and content, which cost at most the
  remaining budget, followed by the truncation marker, and the file is listed as processed
  and as truncated; when the remaining budget is 100 tokens or less, nothing is included
  for the file.
\<close>

theorem truncate_policy_on_token_overflow:
  assumes "truncateMode cfg = Truncate"
    and "stat host fp = Inr fileSize" and "fileSize \<le> fileSizeLimit cfg"
    and "\<not> ((detectFileType host fp = imageFile \<or> detectFileType host fp = pdfFile) \<and>
            \<not> requestedExplicitly ip fp)"
    and "error (processSingleFileContent host fp (targetDir cfg)) = None"
    and "readContent (processSingleFileContent host fp (targetDir cfg)) = Text c"
    and "maxTokens cfg < totalTokens st +
           estimateTokens (contentToAdd fp
             (isTruncated (processSingleFileContent host fp (targetDir cfg))) c)"
  shows "processFiles cfg host ip n (fp # rest) st =
     (let remainingTokens = maxTokens cfg - totalTokens st;
          toAdd = contentToAdd fp (isTruncated (processSingleFileContent host fp (targetDir cfg))) c;
          relativePathForDisplay = replaceBackslashes (relative host (targetDir cfg) fp)
      in if 100 < remainingTokens
         then st\<lparr>contentParts := contentParts st @
                    [Text (take (remainingTokens * 4) toAdd @ truncationMarker)],
                 processedFilesRelativePaths :=
                    processedFilesRelativePaths st @ [relativePathForDisplay],
                 skippedFiles := skippedFiles st @
                    [\<lparr>path = relativePathForDisplay,
                      reason = ''content truncated to fit token limit''\<rparr>]\<rparr>
         else st) \<and>
     estimateTokens (take ((maxTokens cfg - totalTokens st) * 4)
        (contentToAdd fp (isTruncated (processSingleFileContent host fp (targetDir cfg))) c))
       \<le> maxTokens cfg - totalTokens st"
proof
  have "processFile cfg host ip n fp st =
      addTextContent cfg n fp (replaceBackslashes (relative host (targetDir cfg) fp))
        (isTruncated (processSingleFileContent host fp (targetDir cfg))) c st"
    using assms(2-6) by (auto simp: processFile_def Let_def)
  then show "processFiles cfg host ip n (fp # rest) st =
     (let remainingTokens = maxTokens cfg - totalTokens st;
          toAdd = contentToAdd fp (isTruncated (processSingleFileContent host fp (targetDir cfg))) c;
          relativePathForDisplay = replaceBackslashes (relative host (targetDir cfg) fp)
      in if 100 < remainingTokens
         then st\<lparr>contentParts := contentParts st @
                    [Text (take (remainingTokens * 4) toAdd @ truncationMarker)],
                 processedFilesRelativePaths :=
                    processedFilesRelativePaths st @ [relativePathForDisplay],
                 skippedFiles := skippedFiles st @
                    [\<lparr>path = relativePathForDisplay,
                      reason = ''content truncated to fit token limit''\<rparr>]\<rparr>
         else st)"
    using assms(1,7) by (simp add: addTextContent_def pushSkipped_def Let_def)
  show "estimateTokens (take ((maxTokens cfg - totalTokens st) * 4)
        (contentToAdd fp (isTruncated (processSingleFileContent host fp (targetDir cfg))) c))
       \<le> maxTokens cfg - totalTokens st"
    by (rule estimateTokens_take)
qed

theorem truncate_policy_on_token_overflow_witness:
  "truncateMode (demoConfigWith None (Some 120) (Some Truncate)) = Truncate \<and>
   stat bigHost ''/ws/a.txt'' = Inr 5 \<and>
   5 \<le> fileSizeLimit (demoConfigWith None (Some 120) (Some Truncate)) \<and>
   detectFileType bigHost ''/ws/a.txt'' = textFile \<and>
   processSingleFileContent bigHost ''/ws/a.txt'' ''/ws'' =
     \<lparr>readContent = Text (replicate 500 (CHR ''x'')), error = None, isTruncated = False\<rparr> \<and>
   estimateTokens (contentToAdd ''/ws/a.txt'' False (replicate 500 (CHR ''x''))) = 131 \<and>
   processFiles (demoConfigWith None (Some 120) (Some Truncate)) bigHost [''*''] 2
     [''/ws/a.txt'', ''/ws/b.txt''] emptyState =
     emptyState\<lparr>contentParts :=
         [Text (take 480 (contentToAdd ''/ws/a.txt'' False (replicate 500 (CHR ''x''))) @
                truncationMarker)],
       processedFilesRelativePaths := [''a.txt''],
       skippedFiles := [\<lparr>path = ''a.txt'', reason = ''content truncated to fit token limit''\<rparr>]\<rparr> \<and>
   estimateTokens (take 480 (contentToAdd ''/ws/a.txt'' False (replicate 500 (CHR ''x''))))
     \<le> 120"
proof -
  let ?cfg = "demoConfigWith None (Some 120) (Some Truncate)"
  have h1: "truncateMode ?cfg = Truncate" by (simp add: demo_limits)
  have h2: "stat bigHost ''/ws/a.txt'' = Inr 5" by (simp add: bigHost_def demoHost_def)
  have h3: "5 \<le> fileSizeLimit ?cfg"
    by (simp add: fileSizeLimit_def demoConfigWith_def DEFAULT_FILE_SIZE_LIMIT_def)
  have ty: "detectFileType bigHost ''/ws/a.txt'' = textFile"
    by (simp add: bigHost_def demoHost_def)
  have h4: "\<not> ((detectFileType bigHost ''/ws/a.txt'' = imageFile \<or>
               detectFileType bigHost ''/ws/a.txt'' = pdfFile) \<and>
              \<not> requestedExplicitly [''*''] ''/ws/a.txt'')"
    by (simp add: ty)
  have td: "targetDir ?cfg = ''/ws''" by (simp add: demoConfigWith_def)
  have rd: "processSingleFileContent bigHost ''/ws/a.txt'' ''/ws'' =
      \<lparr>readContent = Text (replicate 500 (CHR ''x'')), error = None, isTruncated = False\<rparr>"
    by (simp add: bigHost_def)
  have h5: "error (processSingleFileContent bigHost ''/ws/a.txt'' (targetDir ?cfg)) = None"
    by (simp add: td rd)
  have h6: "readContent (processSingleFileContent bigHost ''/ws/a.txt'' (targetDir ?cfg)) =
      Text (replicate 500 (CHR ''x''))"
    by (simp add: td rd)
  have tr: "isTruncated (processSingleFileContent bigHost ''/ws/a.txt'' (targetDir ?cfg)) = False"
    by (simp add: td rd)
  have tok: "estimateTokens (contentToAdd ''/ws/a.txt'' False (replicate 500 (CHR ''x''))) = 131"
    by (simp add: contentToAdd_def estimateTokens_def nl_def)
  have mt: "maxTokens ?cfg = 120" by (simp add: demo_limits)
  have h7: "maxTokens ?cfg < totalTokens emptyState +
      estimateTokens (contentToAdd ''/ws/a.txt''
        (isTruncated (processSingleFileContent bigHost ''/ws/a.txt'' (targetDir ?cfg)))
        (replicate 500 (CHR ''x'')))"
    unfolding tr tok mt by (simp add: emptyState_def)
  have rel: "replaceBackslashes (relative bigHost (targetDir ?cfg) ''/ws/a.txt'') = ''a.txt''"
    by (simp add: td bigHost_def demoHost_def replaceBackslashes_def)
  have tt: "totalTokens emptyState = 0" by (simp add: emptyState_def)
  note inst = truncate_policy_on_token_overflow
      [OF h1 h2 h3 h4 h5 h6 h7, of 2 "[''/ws/b.txt'']", unfolded tr mt rel tt]
  have e: "emptyState\<lparr>contentParts := contentParts emptyState @ xs,
              processedFilesRelativePaths := processedFilesRelativePaths emptyState @ ys,
              skippedFiles := skippedFiles emptyState @ zs\<rparr> =
           emptyState\<lparr>contentParts := xs, processedFilesRelativePaths := ys, skippedFiles := zs\<rparr>"
    for xs ys zs by (simp add: emptyState_def)
  show ?thesis
    using inst h1 h2 h3 ty rd tok by (simp add: Let_def e)
qed

section \<open>Images and PDFs must be requested explicitly\<close>

lemma length_lastSegment: "length (lastSegment p) \<le> length p"
proof -
  have "length (takeWhile (\<lambda>c. c \<noteq> CHR ''/'') (rev p)) \<le> length (rev p)"
    by (rule length_takeWhile_le)
  then show ?thesis by (simp add: lastSegment_def)
qed

lemma after_last_dot:
  assumes "CHR ''.'' \<in> set b"
  shows "\<exists>pre. b = pre @ CHR ''.'' # rev (takeWhile (\<lambda>c. c \<noteq> CHR ''.'') (rev b))"
proof -
  let ?P = "\<lambda>c. c \<noteq> CHR ''.''"
  have "dropWhile ?P (rev b) \<noteq> []" using assms by (simp add: dropWhile_eq_Nil_conv)
  then obtain x xs where d: "dropWhile ?P (rev b) = x # xs"
    by (cases "dropWhile ?P (rev b)") auto
  then have "\<not> ?P x" using hd_dropWhile [of ?P "rev b"] by auto
  then have x: "x = CHR ''.''" by simp
  have "rev b = takeWhile ?P (rev b) @ dropWhile ?P (rev b)" by simp
  then have "rev (rev b) = rev (takeWhile ?P (rev b) @ CHR ''.'' # xs)"
    using d x by simp
  then have "b = rev xs @ CHR ''.'' # rev (takeWhile ?P (rev b))" by simp
  then show ?thesis by blast
qed

lemma extname_shape:
  "extname p = [] \<or>
   (suffix (extname p) (lastSegment p) \<and> length (extname p) < length (lastSegment p))"
proof (cases "CHR ''.'' \<in> set (lastSegment p)")
  case False
  then show ?thesis by (simp add: extname_def)
next
  case True
  let ?b = "lastSegment p"
  let ?e = "rev (takeWhile (\<lambda>c. c \<noteq> CHR ''.'') (rev ?b))"
  obtain pre where b: "?b = pre @ CHR ''.'' # ?e"
    using after_last_dot [OF True] by blast
  have suf: "suffix (CHR ''.'' # ?e) ?b"
    unfolding suffix_def using b by blast
  have len: "Suc (length ?e) \<le> length ?b"
    using suffix_length_le [OF suf] by simp
  show ?thesis
  proof (cases "extname p = []")
    case True
    then show ?thesis by simp
  next
    case False
    then have e: "extname p = CHR ''.'' # ?e" and ne: "Suc (length ?e) \<noteq> length ?b"
      by (auto simp: extname_def Let_def split: if_splits)
    then show ?thesis using suf len by simp
  qed
qed

lemma basename_with_extname:
  assumes "extname p \<noteq> []"
  shows "basename p (extname p) = take (length (lastSegment p) - length (extname p)) (lastSegment p)"
proof -
  have s: "suffix (extname p) (lastSegment p)"
    and l: "length (extname p) < length (lastSegment p)"
    using extname_shape [of p] assms by auto
  have "length (extname p) < length p" using l length_lastSegment [of p] by simp
  then have "extname p \<noteq> p" and "length (extname p) \<le> length p" by auto
  moreover have "extname p \<noteq> lastSegment p" using l by auto
  ultimately show ?thesis using assms s by (simp add: basename_def Let_def)
qed

text \<open>
  What \<open>path.basename\<close> leaves when it is given the lower-cased extension begins with
  the name without its extension: either the extension was in lower case and is removed,
  or the whole last segment is left.
\<close>

lemma basename_lowered_extension:
  "prefix (basename p (extname p)) (basename p (toLowerCase (extname p)))"
proof (cases "extname p = []")
  case True
  then show ?thesis by (simp add: toLowerCase_def)
next
  case False
  let ?b = "lastSegment p"
  let ?e = "extname p"
  let ?e' = "toLowerCase ?e"
  have len: "length ?e' = length ?e" by (simp add: toLowerCase_def)
  have s: "suffix ?e ?b" and l: "length ?e < length ?b"
    using extname_shape [of p] False by auto
  have lp: "length ?e' < length p" using l len length_lastSegment [of p] by simp
  then have ne: "?e' \<noteq> p" by auto
  have name: "basename p ?e = take (length ?b - length ?e) ?b"
    by (rule basename_with_extname [OF False])
  have "basename p ?e' = take (length ?b - length ?e) ?b \<or> basename p ?e' = ?b"
    using ne len by (auto simp: basename_def Let_def)
  then show ?thesis
  proof
    assume "basename p ?e' = take (length ?b - length ?e) ?b"
    then show ?thesis using name by simp
  next
    assume "basename p ?e' = ?b"
    then show ?thesis using name by (simp add: take_is_prefix)
  qed
qed

lemma requestedExplicitly_imp:
  assumes "requestedExplicitly ip fp"
  shows "\<exists>pattern \<in> set ip.
           stringIncludes (toLowerCase pattern) (toLowerCase (extname fp)) \<or>
           stringIncludes pattern (basename fp (extname fp))"
proof -
  obtain pattern where p: "pattern \<in> set ip"
    and c: "stringIncludes (toLowerCase pattern) (toLowerCase (extname fp)) \<or>
            stringIncludes pattern (basename fp (toLowerCase (extname fp)))"
    using assms by (auto simp: requestedExplicitly_def Let_def list_ex_iff)
  have "sublist (basename fp (toLowerCase (extname fp))) pattern \<Longrightarrow>
        sublist (basename fp (extname fp)) pattern"
    using basename_lowered_extension [of fp] prefix_imp_sublist sublist_order.order_trans
    by blast
  then show ?thesis using p c by (auto simp: stringIncludes_def)
qed

text \<open>
  Claim C10. For a file that reaches the type check and is detected as an image or a PDF:
  when no pattern of \<open>params.paths\<close> contains the extension of the file (both in lower
  case) or the base name of the file without its extension, the file is skipped with the
  record that it was not explicitly requested, before it is read and with the token total
  unchanged; hence whenever the iteration adds content, some pattern of \<open>params.paths\<close>
  does contain one of the two. The patterns of \<open>include\<close> play no part: the read loop of
  \<open>readFiles\<close> is given \<open>paths params\<close>.
\<close>

theorem asset_needs_explicit_request:
  assumes "detectFileType host fp = imageFile \<or> detectFileType host fp = pdfFile"
    and "stat host fp = Inr fileSize" and "fileSize \<le> fileSizeLimit cfg"
  shows "((\<forall>pattern \<in> set (paths params).
             \<not> stringIncludes (toLowerCase pattern) (toLowerCase (extname fp)) \<and>
             \<not> stringIncludes pattern (basename fp (extname fp))) \<longrightarrow>
          processFile cfg host (paths params) n fp st =
            (st\<lparr>skippedFiles := skippedFiles st @
                [\<lparr>path = replaceBackslashes (relative host (targetDir cfg) fp),
                  reason = notRequestedReason\<rparr>]\<rparr>, False)) \<and>
         (contentParts (fst (processFile cfg host (paths params) n fp st)) \<noteq> contentParts st \<longrightarrow>
          (\<exists>pattern \<in> set (paths params).
             stringIncludes (toLowerCase pattern) (toLowerCase (extname fp)) \<or>
             stringIncludes pattern (basename fp (extname fp))))"
proof -
  have skip: "processFile cfg host (paths params) n fp st =
      (st\<lparr>skippedFiles := skippedFiles st @
          [\<lparr>path = replaceBackslashes (relative host (targetDir cfg) fp),
            reason = notRequestedReason\<rparr>]\<rparr>, False)"
    if "\<not> requestedExplicitly (paths params) fp"
    using that assms by (auto simp: processFile_def pushSkipped_def Let_def)
  show ?thesis
  proof (intro conjI impI)
    assume "\<forall>pattern \<in> set (paths params).
        \<not> stringIncludes (toLowerCase pattern) (toLowerCase (extname fp)) \<and>
        \<not> stringIncludes pattern (basename fp (extname fp))"
    then have "\<not> requestedExplicitly (paths params) fp"
      using requestedExplicitly_imp [of "paths params" fp] by blast
    then show "processFile cfg host (paths params) n fp st =
      (st\<lparr>skippedFiles := skippedFiles st @
          [\<lparr>path = replaceBackslashes (relative host (targetDir cfg) fp),
            reason = notRequestedReason\<rparr>]\<rparr>, False)"
      by (rule skip)
  next
    assume "contentParts (fst (processFile cfg host (paths params) n fp st)) \<noteq> contentParts st"
    then have "requestedExplicitly (paths params) fp"
      using skip by fastforce
    then show "\<exists>pattern \<in> set (paths params).
        stringIncludes (toLowerCase pattern) (toLowerCase (extname fp)) \<or>
        stringIncludes pattern (basename fp (extname fp))"
      by (rule requestedExplicitly_imp)
  qed
qed
lemma logo_extname: "extname ''/ws/logo.png'' = ''.png''"
  by code_simp

lemma logo_basename: "basename ''/ws/logo.png'' ''.png'' = ''logo''"
  by code_simp

lemma logo_not_requested:
  "\<not> stringIncludes (toLowerCase ''*.txt'') (toLowerCase ''.png'')"
  "\<not> stringIncludes ''*.txt'' ''logo''"
  by code_simp+

lemma logo_requested: "requestedExplicitly [''*.png''] ''/ws/logo.png''"
  by code_simp

theorem asset_needs_explicit_request_witness:
  "detectFileType imageHost ''/ws/logo.png'' = imageFile \<and>
   stat imageHost ''/ws/logo.png'' = Inr 5 \<and>
   5 \<le> fileSizeLimit (demoConfigWith None None None) \<and>
   extname ''/ws/logo.png'' = ''.png'' \<and>
   basename ''/ws/logo.png'' ''.png'' = ''logo'' \<and>
   \<not> stringIncludes (toLowerCase ''*.txt'') (toLowerCase ''.png'') \<and>
   \<not> stringIncludes ''*.txt'' ''logo'' \<and>
   processFile (demoConfigWith None None None) imageHost
       (paths (demoParams\<lparr>paths := [''*.txt'']\<rparr>)) 1 ''/ws/logo.png'' emptyState =
     (emptyState\<lparr>skippedFiles := [\<lparr>path = ''logo.png'', reason = notRequestedReason\<rparr>]\<rparr>,
      False) \<and>
   contentParts (fst (processFile (demoConfigWith None None None) imageHost
       (paths (demoParams\<lparr>paths := [''*.png'']\<rparr>)) 1 ''/ws/logo.png'' emptyState)) =
     [InlineData ''iVBORw0KGgo=''] \<and>
   (stringIncludes (toLowerCase ''*.png'') (toLowerCase ''.png'') \<or>
    stringIncludes ''*.png'' ''logo'')"
proof -
  let ?cfg = "demoConfigWith None None None"
  let ?fp = "''/ws/logo.png''"
  have h1: "detectFileType imageHost ?fp = imageFile \<or> detectFileType imageHost ?fp = pdfFile"
    by (simp add: imageHost_def)
  have h2: "stat imageHost ?fp = Inr 5" by (simp add: imageHost_def demoHost_def)
  have h3: "5 \<le> fileSizeLimit ?cfg"
    by (simp add: fileSizeLimit_def demoConfigWith_def DEFAULT_FILE_SIZE_LIMIT_def)
  have rel: "replaceBackslashes (relative imageHost (targetDir ?cfg) ?fp) = ''logo.png''"
    by (simp add: demoConfigWith_def imageHost_def demoHost_def replaceBackslashes_def)
  have none: "\<forall>pattern \<in> set (paths (demoParams\<lparr>paths := [''*.txt'']\<rparr>)).
      \<not> stringIncludes (toLowerCase pattern) (toLowerCase (extname ?fp)) \<and>
      \<not> stringIncludes pattern (basename ?fp (extname ?fp))"
    using logo_not_requested by (simp add: logo_extname logo_basename)
  have skipped: "processFile ?cfg imageHost (paths (demoParams\<lparr>paths := [''*.txt'']\<rparr>)) 1 ?fp
      emptyState =
      (emptyState\<lparr>skippedFiles := [\<lparr>path = ''logo.png'', reason = notRequestedReason\<rparr>]\<rparr>,
       False)"
    using asset_needs_explicit_request [OF h1 h2 h3, of "demoParams\<lparr>paths := [''*.txt'']\<rparr>" 1
        emptyState] none
    unfolding rel by (simp add: emptyState_def)
  have added: "contentParts (fst (processFile ?cfg imageHost
      (paths (demoParams\<lparr>paths := [''*.png'']\<rparr>)) 1 ?fp emptyState)) =
      [InlineData ''iVBORw0KGgo='']"
    using h3 logo_requested
    by (simp add: processFile_def imageHost_def demoHost_def addInlineContent_def demo_limits
        emptyState_def)
  then have "contentParts (fst (processFile ?cfg imageHost
      (paths (demoParams\<lparr>paths := [''*.png'']\<rparr>)) 1 ?fp emptyState)) \<noteq>
      contentParts emptyState"
    by (simp add: emptyState_def)
  then have "\<exists>pattern \<in> set (paths (demoParams\<lparr>paths := [''*.png'']\<rparr>)).
      stringIncludes (toLowerCase pattern) (toLowerCase (extname ?fp)) \<or>
      stringIncludes pattern (basename ?fp (extname ?fp))"
    using asset_needs_explicit_request [OF h1 h2 h3, of "demoParams\<lparr>paths := [''*.png'']\<rparr>" 1
        emptyState]
    by blast
  then have req: "stringIncludes (toLowerCase ''*.png'') (toLowerCase ''.png'') \<or>
      stringIncludes ''*.png'' ''logo''"
    by (simp add: logo_extname logo_basename)
  show ?thesis
    using h2 h3 logo_extname logo_basename logo_not_requested skipped added req
    by (simp add: imageHost_def)
qed

text \<open>
  The test of the code is stricter than the base name without extension when the
  extension is not in lower case: \<open>path.basename\<close> compares exactly, the lower-cased
  extension is not removed, and a pattern has to contain the whole file name.
\<close>

lemma upper_case_extension_not_requested:
  "extname ''/ws/LOGO.PNG'' = ''.PNG'' \<and>
   basename ''/ws/LOGO.PNG'' (toLowerCase ''.PNG'') = ''LOGO.PNG'' \<and>
   stringIncludes ''LOGO*'' (basename ''/ws/LOGO.PNG'' (extname ''/ws/LOGO.PNG'')) \<and>
   \<not> requestedExplicitly [''LOGO*''] ''/ws/LOGO.PNG''"
  by code_simp

section \<open>The machine-readable content does not depend on the order of the search results\<close>

lemma set_setAddAll: "set (setAddAll s xs) = set s \<union> set xs"
  unfolding setAddAll_def by (induction xs arbitrary: s) (auto simp: set_setAdd)

lemma distinct_setAddAll: "distinct s \<Longrightarrow> distinct (setAddAll s xs)"
  unfolding setAddAll_def by (induction xs arbitrary: s) (auto simp: distinct_setAdd)

lemma sort_unique:
  fixes xs ys :: "string list"
  assumes "distinct xs" and "distinct ys" and "set xs = set ys"
  shows "sort xs = sort ys"
  by (rule sorted_distinct_set_unique) (simp_all add: assms)

lemma set_gitFilteredEntries:
  assumes "set entries = set entries'"
  shows "set (gitFilteredEntries cfg host params entries) =
         set (gitFilteredEntries cfg host params entries')"
  using assms by (simp add: gitFilteredEntries_def filterFiles_def)

lemma set_finalFilteredEntries:
  assumes "set entries = set entries'"
  shows "set (finalFilteredEntries cfg host params entries) =
         set (finalFilteredEntries cfg host params entries')"
  using set_gitFilteredEntries [OF assms, of cfg host params]
  by (simp add: finalFilteredEntries_def filterFiles_def)

lemma scanEntries_same_candidates:
  assumes "set entries = set entries'"
  shows "sort (filesToConsider (scanEntries cfg host params entries)) =
         sort (filesToConsider (scanEntries cfg host params entries'))"
proof (rule sort_unique)
  show "set (filesToConsider (scanEntries cfg host params entries)) =
        set (filesToConsider (scanEntries cfg host params entries'))"
    using assms set_gitFilteredEntries [OF assms, of cfg host params]
      set_finalFilteredEntries [OF assms, of cfg host params]
    by (simp add: scanEntries_filesToConsider)
qed (rule scanEntries_distinct)+

text \<open>
  The content parts, the processed paths and the token total after an iteration are
  determined by their values before it: the skip records and the counters are only
  written.
\<close>

lemma addTextContent_progress:
  assumes "contentParts st = contentParts st'"
    and "processedFilesRelativePaths st = processedFilesRelativePaths st'"
    and "totalTokens st = totalTokens st'"
  shows "contentParts (fst (addTextContent cfg n fp rel t c st)) =
           contentParts (fst (addTextContent cfg n fp rel t c st')) \<and>
         processedFilesRelativePaths (fst (addTextContent cfg n fp rel t c st)) =
           processedFilesRelativePaths (fst (addTextContent cfg n fp rel t c st')) \<and>
         totalTokens (fst (addTextContent cfg n fp rel t c st)) =
           totalTokens (fst (addTextContent cfg n fp rel t c st')) \<and>
         snd (addTextContent cfg n fp rel t c st) = snd (addTextContent cfg n fp rel t c st')"
  using assms
  by (cases "truncateMode cfg") (simp_all add: addTextContent_def pushSkipped_def Let_def)

lemma addInlineContent_progress:
  assumes "contentParts st = contentParts st'"
    and "processedFilesRelativePaths st = processedFilesRelativePaths st'"
    and "totalTokens st = totalTokens st'"
  shows "contentParts (fst (addInlineContent cfg rel d st)) =
           contentParts (fst (addInlineContent cfg rel d st')) \<and>
         processedFilesRelativePaths (fst (addInlineContent cfg rel d st)) =
           processedFilesRelativePaths (fst (addInlineContent cfg rel d st')) \<and>
         totalTokens (fst (addInlineContent cfg rel d st)) =
           totalTokens (fst (addInlineContent cfg rel d st')) \<and>
         snd (addInlineContent cfg rel d st) = snd (addInlineContent cfg rel d st')"
  using assms by (simp add: addInlineContent_def pushSkipped_def Let_def)

lemma processFile_progress:
  assumes "contentParts st = contentParts st'"
    and "processedFilesRelativePaths st = processedFilesRelativePaths st'"
    and "totalTokens st = totalTokens st'"
  shows "contentParts (fst (processFile cfg host ip n fp st)) =
           contentParts (fst (processFile cfg host ip n fp st')) \<and>
         processedFilesRelativePaths (fst (processFile cfg host ip n fp st)) =
           processedFilesRelativePaths (fst (processFile cfg host ip n fp st')) \<and>
         totalTokens (fst (processFile cfg host ip n fp st)) =
           totalTokens (fst (processFile cfg host ip n fp st')) \<and>
         snd (processFile cfg host ip n fp st) = snd (processFile cfg host ip n fp st')"
  using assms addTextContent_progress [OF assms] addInlineContent_progress [OF assms]
  by (simp add: processFile_def pushSkipped_def Let_def split: sum.splits PartUnion.splits)

lemma processFiles_progress:
  assumes "contentParts st = contentParts st'"
    and "processedFilesRelativePaths st = processedFilesRelativePaths st'"
    and "totalTokens st = totalTokens st'"
  shows "contentParts (processFiles cfg host ip n fs st) =
         contentParts (processFiles cfg host ip n fs st')"
  using assms
proof (induction fs arbitrary: st st')
  case Nil
  then show ?case by simp
next
  case (Cons f fs)
  obtain s1 b1 where p1: "processFile cfg host ip n f st = (s1, b1)"
    by (cases "processFile cfg host ip n f st")
  obtain s2 b2 where p2: "processFile cfg host ip n f st' = (s2, b2)"
    by (cases "processFile cfg host ip n f st'")
  have eq: "contentParts s1 = contentParts s2"
    "processedFilesRelativePaths s1 = processedFilesRelativePaths s2"
    "totalTokens s1 = totalTokens s2" "b1 = b2"
    using processFile_progress [OF Cons.prems, of cfg host ip n f] p1 p2 by simp_all
  show ?case
  proof (cases b1)
    case True
    then show ?thesis using p1 p2 eq by simp
  next
    case False
    then show ?thesis using p1 p2 eq Cons.IH [OF eq(1,2,3)] by simp
  qed
qed

lemma readFiles_llmContent:
  assumes "sort (filesToConsider st) = sort (filesToConsider st')"
    and "contentParts st = contentParts st'"
    and "processedFilesRelativePaths st = processedFilesRelativePaths st'"
    and "totalTokens st = totalTokens st'"
  shows "llmContent (readFiles cfg host params st) = llmContent (readFiles cfg host params st')"
proof (cases "applyFileCountLimit (maxFileCount cfg) (truncateMode cfg) (sort (filesToConsider st))")
  case None
  then show ?thesis using assms(1) by (simp add: readFiles_def)
next
  case (Some a)
  obtain limited skipped where a: "a = (limited, skipped)" by (cases a)
  have "contentParts (processFiles cfg host (paths params) (length limited) limited
            (st\<lparr>skippedFiles := skippedFiles st @ skipped\<rparr>)) =
        contentParts (processFiles cfg host (paths params) (length limited) limited
            (st'\<lparr>skippedFiles := skippedFiles st' @ skipped\<rparr>))"
    using assms(2,3,4) by (intro processFiles_progress) simp_all
  then show ?thesis
    using Some a assms(1) by (simp add: readFiles_def finalResult_def)
qed

text \<open>
  Claim C9. Two runs with the same parameters on an unchanged file system yield the same
  \<open>llmContent\<close>. What may differ between two such runs is the order in which \<open>glob\<close>
  reports the matching paths: when the searches of two runs succeed with the same set of
  paths, or fail with the same error, the \<open>llmContent\<close> of the two results is the same,
  because the candidates are sorted before they are read.
\<close>

theorem llmContent_same_on_rerun:
  assumes "globEntries cfg (host\<lparr>glob := g\<rparr>) params = Inr entries' \<and>
           globEntries cfg host params = Inr entries \<and> set entries' = set entries \<or>
           globEntries cfg (host\<lparr>glob := g\<rparr>) params = globEntries cfg host params"
  shows "llmContent (execute cfg (host\<lparr>glob := g\<rparr>) params) =
         llmContent (execute cfg host params)"
proof -
  let ?host' = "host\<lparr>glob := g\<rparr>"
  have v: "validateParams ?host' params = validateParams host params"
    by (simp add: validateParams_def)
  have sc: "scanEntries cfg ?host' params es = scanEntries cfg host params es" for es
    by (simp add: scanEntries_def scanLoop_def gitFilteredEntries_def finalFilteredEntries_def
        filterFiles_def)
  have rd: "readFiles cfg ?host' params st = readFiles cfg host params st" for st
    by (rule readFiles_congruent) simp_all
  have same: "llmContent (readFiles cfg host params (scanEntries cfg host params es')) =
      llmContent (readFiles cfg host params (scanEntries cfg host params es))"
    if "set es' = set es" for es es'
    by (rule readFiles_llmContent)
       (simp_all add: scanEntries_same_candidates [OF that] scanEntries_core)
  show ?thesis
  proof (cases "validateParams host params = None \<and> searchPatterns params \<noteq> []")
    case False
    then show ?thesis by (auto simp: execute_def v split: option.splits)
  next
    case True
    then have ex: "execute cfg h params =
        (case globEntries cfg h params of
           Inl err \<Rightarrow> \<lparr>llmContent = Single (Text (''Error during file search: '' @ err)),
                       returnDisplay = FileSearchError err\<rparr>
         | Inr es \<Rightarrow> readFiles cfg h params (scanEntries cfg h params es))"
      if "validateParams h params = validateParams host params" for h
      using that by (simp add: execute_def)
    from assms show ?thesis
    proof
      assume a: "globEntries cfg ?host' params = Inr entries' \<and>
          globEntries cfg host params = Inr entries \<and> set entries' = set entries"
      then have "execute cfg ?host' params =
          readFiles cfg host params (scanEntries cfg host params entries')"
        using ex [OF v] by (simp add: sc rd)
      moreover have "execute cfg host params =
          readFiles cfg host params (scanEntries cfg host params entries)"
        using a ex [OF refl] by simp
      ultimately show ?thesis using same [of entries' entries] a by simp
    next
      assume a: "globEntries cfg ?host' params = globEntries cfg host params"
      show ?thesis
      proof (cases "globEntries cfg host params")
        case (Inl err)
        then show ?thesis using a ex [OF v] ex [OF refl] by simp
      next
        case (Inr es)
        then show ?thesis using a ex [OF v] ex [OF refl] by (simp add: sc rd)
      qed
    qed
  qed
qed

theorem llmContent_same_on_rerun_witness:
  "globEntries (demoConfigWith None None None)
     (demoHost\<lparr>glob := \<lambda>patterns dir ignore. Inr (rev demoEntries)\<rparr>) demoParams =
     Inr (rev demoEntries) \<and>
   globEntries (demoConfigWith None None None) demoHost demoParams = Inr demoEntries \<and>
   rev demoEntries \<noteq> demoEntries \<and>
   set (rev demoEntries) = set demoEntries \<and>
   llmContent (execute (demoConfigWith None None None)
     (demoHost\<lparr>glob := \<lambda>patterns dir ignore. Inr (rev demoEntries)\<rparr>) demoParams) =
   Parts [Text (contentToAdd ''/ws/a.txt'' False ''content of /ws/a.txt''),
          Text (contentToAdd ''/ws/b.txt'' False ''content of /ws/b.txt'')]"
proof -
  let ?cfg = "demoConfigWith None None None"
  let ?g = "\<lambda>patterns dir ignore. Inr (rev demoEntries) :: string + string list"
  have g': "globEntries ?cfg (demoHost\<lparr>glob := ?g\<rparr>) demoParams = Inr (rev demoEntries)"
    by (simp add: globEntries_def demoConfigWith_def demoEntries_def setAddAll_def setAdd_def)
  have ne: "rev demoEntries \<noteq> demoEntries" by (simp add: demoEntries_def)
  have s: "set (rev demoEntries) = set demoEntries" by simp
  have "globEntries ?cfg (demoHost\<lparr>glob := ?g\<rparr>) demoParams = Inr (rev demoEntries) \<and>
      globEntries ?cfg demoHost demoParams = Inr demoEntries \<and>
      set (rev demoEntries) = set demoEntries \<or>
      globEntries ?cfg (demoHost\<lparr>glob := ?g\<rparr>) demoParams = globEntries ?cfg demoHost demoParams"
    using g' demo_glob [of None None None] s by blast
  from llmContent_same_on_rerun [OF this] show ?thesis
    using g' demo_glob [of None None None] ne by (simp add: demo_execute)
qed

section \<open>The order of the discovered context files\<close>

lemma setAddAll_append: "setAddAll s (xs @ ys) = setAddAll (setAddAll s xs) ys"
  by (simp add: setAddAll_def)

lemma setAdd_as_setAddAll: "setAdd s x = setAddAll s [x]"
  by (simp add: setAddAll_def)

lemma remdups_append_cong:
  assumes "set zs = set zs'" and "remdups zs = remdups zs'"
  shows "remdups (ys @ zs) = remdups (ys @ zs')"
  using assms by (induction ys) auto

text \<open>A set built by insertions lists the first occurrence of every element inserted.\<close>

lemma setAddAll_first_occurrences:
  "distinct s \<Longrightarrow> setAddAll s xs = rev (remdups (rev (s @ xs)))"
proof (induction xs arbitrary: s)
  case Nil
  then show ?case by (simp add: setAddAll_def distinct_remdups_id)
next
  case (Cons x xs)
  have step: "setAddAll s (x # xs) = setAddAll (setAdd s x) xs"
    by (simp add: setAddAll_def)
  show ?case
  proof (cases "x \<in> set s")
    case True
    then have "setAddAll s (x # xs) = rev (remdups (rev (s @ xs)))"
      using Cons step by (simp add: setAdd_def)
    moreover have "remdups (rev xs @ x # rev s) = remdups (rev xs @ rev s)"
      using True by (intro remdups_append_cong) auto
    ultimately show ?thesis by simp
  next
    case False
    then have "distinct (s @ [x])" using Cons.prems by simp
    then have "setAddAll (s @ [x]) xs = rev (remdups (rev ((s @ [x]) @ xs)))"
      by (rule Cons.IH)
    then show ?thesis using False step by (simp add: setAdd_def)
  qed
qed

lemma fold_addPathsForFilename:
  "fold (addPathsForFilename env dir home maxDirs) names s =
   setAddAll s (concat (map (\<lambda>f.
     (if isReadable env (globalMemoryPathOf env home f) then [globalMemoryPathOf env home f]
      else []) @
     (if dir \<noteq> [] then upwardPathsOf env dir home f @ downwardPathsOf env dir f maxDirs
      else [])) names))"
proof (induction names arbitrary: s)
  case Nil
  then show ?case by (simp add: setAddAll_def)
next
  case (Cons f fs)
  have "addPathsForFilename env dir home maxDirs f s =
      setAddAll s
        ((if isReadable env (globalMemoryPathOf env home f) then [globalMemoryPathOf env home f]
          else []) @
         (if dir \<noteq> [] then upwardPathsOf env dir home f @ downwardPathsOf env dir f maxDirs
          else []))"
    by (simp add: addPathsForFilename_def Let_def setAddAll_append setAdd_as_setAddAll)
       (simp add: setAddAll_def)
  then show ?case using Cons [of "addPathsForFilename env dir home maxDirs f s"]
    by (simp add: setAddAll_append)
qed

text \<open>
  The upward scan puts every path in front of those found before, which lie in
  directories strictly below the current one.
\<close>

lemma upwardScan_root_to_leaf:
  assumes "sorted_wrt (\<lambda>p q. strict_prefix (dirname p) (dirname q)) acc"
    and "\<forall>p \<in> set acc. strict_prefix cur (dirname p)"
  shows "sorted_wrt (\<lambda>p q. strict_prefix (dirname p) (dirname q))
           (upwardScan env f home g stop cur acc)"
  using assms
proof (induction env f home g stop cur acc rule: upwardScan.induct)
  case (1 env f home g stop cur acc)
  show ?case
  proof (cases "cur \<noteq> dirname cur \<and> cur \<noteq> home @ [LLXPRT_CONFIG_DIR env]")
    case False
    then show ?thesis using "1.prems"(1) by (subst upwardScan.simps) auto
  next
    case True
    let ?pp = "cur @ [f]"
    let ?acc' = "if isReadable env ?pp \<and> ?pp \<noteq> g then ?pp # acc else acc"
    have ne: "cur \<noteq> []" using True by (auto simp: dirname_def)
    have sorted': "sorted_wrt (\<lambda>p q. strict_prefix (dirname p) (dirname q)) ?acc'"
      using "1.prems" by (auto simp: dirname_def)
    have up: "strict_prefix (dirname cur) cur"
      using ne by (cases cur rule: rev_cases) (auto simp: dirname_def strict_prefix_def)
    have below: "\<forall>p \<in> set ?acc'. strict_prefix (dirname cur) (dirname p)"
    proof
      fix p assume "p \<in> set ?acc'"
      then consider "p = ?pp" | "p \<in> set acc" by (auto split: if_splits)
      then show "strict_prefix (dirname cur) (dirname p)"
      proof cases
        case 1
        then show ?thesis using up by (simp add: dirname_def)
      next
        case 2
        then have "strict_prefix cur (dirname p)" using "1.prems"(2) by blast
        then show ?thesis using up by (meson prefix_order.less_trans)
      qed
    qed
    show ?thesis
    proof (cases "cur = stop")
      case stop: True
      have "upwardScan env f home g stop cur acc = ?acc'"
        using True stop by (subst upwardScan.simps) (simp add: Let_def)
      then show ?thesis using sorted' by simp
    next
      case False
      have "sorted_wrt (\<lambda>p q. strict_prefix (dirname p) (dirname q))
          (upwardScan env f home g stop (dirname cur) ?acc')"
        using True False sorted' below by (intro "1.IH" [OF _ _ refl refl]) auto
      moreover have "upwardScan env f home g stop cur acc =
          upwardScan env f home g stop (dirname cur) ?acc'"
        using True False by (subst upwardScan.simps) (simp add: Let_def)
      ultimately show ?thesis by simp
    qed
  qed
qed

lemma upwardPathsOf_root_to_leaf:
  "sorted_wrt (\<lambda>p q. strict_prefix (dirname p) (dirname q)) (upwardPathsOf env dir home f)"
  unfolding upwardPathsOf_def Let_def by (rule upwardScan_root_to_leaf) simp_all

lemma downwardPathsOf_sorted: "sorted (map pathString (downwardPathsOf env dir f maxDirs))"
  by (simp add: downwardPathsOf_def)

text \<open>
  With two recognised file names the global file of the second name comes after the
  downward matches of the first.
\<close>

theorem context_paths_single_order_counterexample:
  "getAllContextFilenames twoNamesTree = [''A.md'', ''B.md''] \<and>
   globalMemoryPathOf twoNamesTree ''/home/u'' ''B.md'' = [''home'', ''u'', ''.llxprt'', ''B.md''] \<and>
   downwardPathsOf twoNamesTree ''/w'' ''A.md'' 200 = [[''w'', ''A.md''], [''w'', ''sub'', ''A.md'']] \<and>
   getContextFilePathsInternalForEachDir twoNamesTree ''/w'' ''/home/u'' [] 200 =
     [[''home'', ''u'', ''.llxprt'', ''A.md''], [''w'', ''A.md''], [''w'', ''sub'', ''A.md''],
      [''home'', ''u'', ''.llxprt'', ''B.md''], [''w'', ''B.md'']]"
  by code_simp

text \<open>
  Claim C6, amended. The final path list is free of duplicates and is the list of first
  occurrences in this order: for each recognised context file name in turn, the global
  file if it is readable, then the upward matches of that name in root-to-leaf order, then
  the downward matches of that name sorted as strings; after the groups of all names, the
  extension-provided paths.
\<close>

theorem context_paths_order:
  "getContextFilePathsInternalForEachDir env dir home extensionPaths maxDirs =
     rev (remdups (rev
       (concat (map (\<lambda>f.
          (if isReadable env (globalMemoryPathOf env home f) then [globalMemoryPathOf env home f]
           else []) @
          (if dir \<noteq> [] then upwardPathsOf env dir home f @ downwardPathsOf env dir f maxDirs
           else [])) (getAllContextFilenames env)) @
        extensionPaths))) \<and>
   distinct (getContextFilePathsInternalForEachDir env dir home extensionPaths maxDirs) \<and>
   sorted_wrt (\<lambda>p q. strict_prefix (dirname p) (dirname q)) (upwardPathsOf env dir home f) \<and>
   sorted (map pathString (downwardPathsOf env dir f maxDirs))"
proof (intro conjI)
  have eq: "getContextFilePathsInternalForEachDir env dir home extensionPaths maxDirs =
      setAddAll []
        (concat (map (\<lambda>f.
          (if isReadable env (globalMemoryPathOf env home f) then [globalMemoryPathOf env home f]
           else []) @
          (if dir \<noteq> [] then upwardPathsOf env dir home f @ downwardPathsOf env dir f maxDirs
           else [])) (getAllContextFilenames env)) @
         extensionPaths)"
    by (simp add: getContextFilePathsInternalForEachDir_def fold_addPathsForFilename
        setAddAll_append)
  then show "getContextFilePathsInternalForEachDir env dir home extensionPaths maxDirs =
     rev (remdups (rev
       (concat (map (\<lambda>f.
          (if isReadable env (globalMemoryPathOf env home f) then [globalMemoryPathOf env home f]
           else []) @
          (if dir \<noteq> [] then upwardPathsOf env dir home f @ downwardPathsOf env dir f maxDirs
           else [])) (getAllContextFilenames env)) @
        extensionPaths)))"
    by (simp add: setAddAll_first_occurrences)
  show "distinct (getContextFilePathsInternalForEachDir env dir home extensionPaths maxDirs)"
    unfolding eq by (rule distinct_setAddAll) simp
  show "sorted_wrt (\<lambda>p q. strict_prefix (dirname p) (dirname q)) (upwardPathsOf env dir home f)"
    by (rule upwardPathsOf_root_to_leaf)
  show "sorted (map pathString (downwardPathsOf env dir f maxDirs))"
    by (rule downwardPathsOf_sorted)
qed
lemma projectTree_names: "getAllContextFilenames projectTree = [''CTX.md'']"
  by (simp add: projectTree_def treeHost_def)

lemma projectTree_global:
  "globalMemoryPathOf projectTree ''/home/u'' ''CTX.md'' = [''home'', ''u'', ''.llxprt'', ''CTX.md'']"
  "isReadable projectTree [''home'', ''u'', ''.llxprt'', ''CTX.md'']"
  by code_simp+

lemma projectTree_upward:
  "upwardPathsOf projectTree ''/home/u/proj/pkg/app'' ''/home/u'' ''CTX.md'' =
     [[''home'', ''u'', ''proj'', ''CTX.md''],
      [''home'', ''u'', ''proj'', ''pkg'', ''app'', ''CTX.md'']]"
  by code_simp

lemma projectTree_downward:
  "downwardPathsOf projectTree ''/home/u/proj/pkg/app'' ''CTX.md'' 200 =
     [[''home'', ''u'', ''proj'', ''pkg'', ''app'', ''CTX.md''],
      [''home'', ''u'', ''proj'', ''pkg'', ''app'', ''lib'', ''x'', ''y'', ''CTX.md'']]"
  by code_simp

theorem context_paths_order_witness:
  "getContextFilePathsInternalForEachDir projectTree ''/home/u/proj/pkg/app'' ''/home/u''
     [[''ext'', ''one'', ''CTX.md'']] 200 =
     [[''home'', ''u'', ''.llxprt'', ''CTX.md''],
      [''home'', ''u'', ''proj'', ''CTX.md''],
      [''home'', ''u'', ''proj'', ''pkg'', ''app'', ''CTX.md''],
      [''home'', ''u'', ''proj'', ''pkg'', ''app'', ''lib'', ''x'', ''y'', ''CTX.md''],
      [''ext'', ''one'', ''CTX.md'']] \<and>
   strict_prefix (dirname [''home'', ''u'', ''proj'', ''CTX.md''])
     (dirname [''home'', ''u'', ''proj'', ''pkg'', ''app'', ''CTX.md''])"
proof -
  have ne: "''/home/u/proj/pkg/app'' \<noteq> []" by simp
  note inst = context_paths_order [of projectTree "''/home/u/proj/pkg/app''" "''/home/u''"
      "[[''ext'', ''one'', ''CTX.md'']]" 200 "''CTX.md''"]
  have "getContextFilePathsInternalForEachDir projectTree ''/home/u/proj/pkg/app'' ''/home/u''
      [[''ext'', ''one'', ''CTX.md'']] 200 =
      [[''home'', ''u'', ''.llxprt'', ''CTX.md''],
       [''home'', ''u'', ''proj'', ''CTX.md''],
       [''home'', ''u'', ''proj'', ''pkg'', ''app'', ''CTX.md''],
       [''home'', ''u'', ''proj'', ''pkg'', ''app'', ''lib'', ''x'', ''y'', ''CTX.md''],
       [''ext'', ''one'', ''CTX.md'']]"
    using inst
    by (simp add: projectTree_names projectTree_global projectTree_upward projectTree_downward)
  moreover have "strict_prefix (dirname [''home'', ''u'', ''proj'', ''CTX.md''])
      (dirname [''home'', ''u'', ''proj'', ''pkg'', ''app'', ''CTX.md''])"
    using inst by (simp add: projectTree_upward)
  ultimately show ?thesis by simp
qed

section \<open>The levels of the upward scan\<close>

lemma ancestors_Nil: "ancestors [] = []"
  by (subst ancestors.simps) simp

lemma ancestors_nonempty: "d \<noteq> [] \<Longrightarrow> ancestors d = d # ancestors (butlast d)"
  by (subst ancestors.simps) simp

lemma visitedLevels_Nil: "visitedLevels configDir stopDir [] = []"
  by (simp add: visitedLevels_def ancestors_Nil)

lemma visitedLevels_config:
  "d \<noteq> [] \<Longrightarrow> d = configDir \<Longrightarrow> visitedLevels configDir stopDir d = []"
  by (simp add: visitedLevels_def ancestors_nonempty)

lemma visitedLevels_stop:
  "d \<noteq> [] \<Longrightarrow> d \<noteq> configDir \<Longrightarrow> d = stopDir \<Longrightarrow>
   visitedLevels configDir stopDir d = [d]"
  by (simp add: visitedLevels_def ancestors_nonempty)

lemma visitedLevels_step:
  "d \<noteq> [] \<Longrightarrow> d \<noteq> configDir \<Longrightarrow> d \<noteq> stopDir \<Longrightarrow>
   visitedLevels configDir stopDir d = d # visitedLevels configDir stopDir (butlast d)"
  by (simp add: visitedLevels_def ancestors_nonempty Let_def)

text \<open>The loop examines exactly the levels listed, and puts what it finds in front.\<close>

lemma upwardScan_levels:
  "upwardScan env f home g stop cur acc =
     rev (filter (\<lambda>p. isReadable env p \<and> p \<noteq> g)
            (map (\<lambda>d. d @ [f]) (visitedLevels (home @ [LLXPRT_CONFIG_DIR env]) stop cur))) @ acc"
proof (induction env f home g stop cur acc rule: upwardScan.induct)
  case (1 env f home g stop cur acc)
  let ?cfg = "home @ [LLXPRT_CONFIG_DIR env]"
  let ?pp = "cur @ [f]"
  let ?acc' = "if isReadable env ?pp \<and> ?pp \<noteq> g then ?pp # acc else acc"
  show ?case
  proof (cases "cur = []")
    case True
    then have "upwardScan env f home g stop cur acc = acc"
      by (subst upwardScan.simps) (simp add: dirname_def)
    then show ?thesis using True by (simp add: visitedLevels_Nil)
  next
    case ne: False
    then have loop: "cur \<noteq> dirname cur"
      by (cases cur rule: rev_cases) (auto simp: dirname_def)
    show ?thesis
    proof (cases "cur = ?cfg")
      case True
      then have "upwardScan env f home g stop cur acc = acc"
        using loop by (subst upwardScan.simps) simp
      then show ?thesis using visitedLevels_config [OF ne True, of stop] by simp
    next
      case notcfg: False
      show ?thesis
      proof (cases "cur = stop")
        case True
        have "upwardScan env f home g stop cur acc = ?acc'"
          using loop notcfg True by (subst upwardScan.simps) (simp add: Let_def)
        then show ?thesis using visitedLevels_stop [OF ne notcfg True] by simp
      next
        case False
        have "upwardScan env f home g stop cur acc =
            upwardScan env f home g stop (dirname cur) ?acc'"
          using loop notcfg False by (subst upwardScan.simps) (simp add: Let_def)
        also have "\<dots> =
            rev (filter (\<lambda>p. isReadable env p \<and> p \<noteq> g)
                   (map (\<lambda>d. d @ [f]) (visitedLevels ?cfg stop (dirname cur)))) @ ?acc'"
          using loop notcfg False by (intro "1.IH" [OF _ _ refl refl]) auto
        finally show ?thesis
          using visitedLevels_step [OF ne notcfg False] by (simp add: dirname_def)
      qed
    qed
  qed
qed

text \<open>The project root is the first directory, from the start upwards, holding \<open>.git\<close>.\<close>

lemma findProjectRoot_find:
  "findProjectRoot env cur =
     find (\<lambda>d. isDirectory env (d @ [''.git''])) (ancestors cur @ [[]])"
proof (induction env cur rule: findProjectRoot.induct)
  case (1 env cur)
  show ?case
  proof (cases "cur = []")
    case True
    then show ?thesis
      by (subst findProjectRoot.simps) (simp add: ancestors_Nil dirname_def)
  next
    case False
    then have loop: "dirname cur \<noteq> cur"
      by (cases cur rule: rev_cases) (auto simp: dirname_def)
    show ?thesis
    proof (cases "isDirectory env (cur @ [''.git''])")
      case True
      then show ?thesis
        by (subst findProjectRoot.simps) (simp add: ancestors_nonempty [OF False])
    next
      case nogit: False
      have "findProjectRoot env cur = findProjectRoot env (dirname cur)"
        using nogit loop by (subst findProjectRoot.simps) simp
      also have "\<dots> = find (\<lambda>d. isDirectory env (d @ [''.git''])) (ancestors (dirname cur) @ [[]])"
        using nogit loop by (intro "1.IH") auto
      finally show ?thesis
        using nogit by (simp add: ancestors_nonempty [OF False] dirname_def)
    qed
  qed
qed

text \<open>
  Without any \<open>.git\<close> directory the scan from \<open>/data/homes/u/proj\<close> ends at \<open>/data/homes\<close>,
  the parent of the home directory: the readable file \<open>/data/CTX.md\<close>, one level
  further up and still below the root, is not recorded.
\<close>

theorem upward_scan_to_root_counterexample:
  "findProjectRoot noGitTree [''data'', ''homes'', ''u'', ''proj''] = None \<and>
   pathResolve noGitTree ''/data/homes/u/proj'' = [''data'', ''homes'', ''u'', ''proj''] \<and>
   isReadable noGitTree [''data'', ''CTX.md''] \<and>
   [''data'', ''CTX.md''] \<noteq> globalMemoryPathOf noGitTree ''/data/homes/u'' ''CTX.md'' \<and>
   upwardPathsOf noGitTree ''/data/homes/u/proj'' ''/data/homes/u'' ''CTX.md'' =
     [[''data'', ''homes'', ''u'', ''proj'', ''CTX.md'']]"
  by code_simp

text \<open>
  Claim C7, amended. For every starting directory the upward scan examines the starting
  directory and then its parents, never the filesystem root itself, and ends after it has
  examined the stop directory, which is the parent of the nearest directory at or above
  the start that holds a \<open>.git\<close> directory or, when there is none up to the root, the
  parent of the user's home directory; it ends earlier, without examining it, when it
  reaches the global config directory. At each examined level a readable context file
  that is not the global file is recorded, the levels nearer to the root first.
\<close>

theorem upward_scan_levels:
  "upwardPathsOf env dir home f =
     rev (filter (\<lambda>p. isReadable env p \<and> p \<noteq> globalMemoryPathOf env home f)
            (map (\<lambda>d. d @ [f])
               (visitedLevels (pathResolve env home @ [LLXPRT_CONFIG_DIR env])
                  (ultimateStopDirOf env home (pathResolve env dir)) (pathResolve env dir)))) \<and>
   ultimateStopDirOf env home (pathResolve env dir) =
     (case find (\<lambda>d. isDirectory env (d @ [''.git''])) (ancestors (pathResolve env dir) @ [[]]) of
        Some projectRoot \<Rightarrow> dirname projectRoot
      | None \<Rightarrow> dirname (pathResolve env home))"
proof
  show "upwardPathsOf env dir home f =
     rev (filter (\<lambda>p. isReadable env p \<and> p \<noteq> globalMemoryPathOf env home f)
            (map (\<lambda>d. d @ [f])
               (visitedLevels (pathResolve env home @ [LLXPRT_CONFIG_DIR env])
                  (ultimateStopDirOf env home (pathResolve env dir)) (pathResolve env dir))))"
    by (simp add: upwardPathsOf_def Let_def upwardScan_levels)
  show "ultimateStopDirOf env home (pathResolve env dir) =
     (case find (\<lambda>d. isDirectory env (d @ [''.git''])) (ancestors (pathResolve env dir) @ [[]]) of
        Some projectRoot \<Rightarrow> dirname projectRoot
      | None \<Rightarrow> dirname (pathResolve env home))"
    by (simp add: ultimateStopDirOf_def findProjectRoot_find)
qed

lemma projectTree_levels:
  "visitedLevels (pathResolve projectTree ''/home/u'' @ [LLXPRT_CONFIG_DIR projectTree])
     (ultimateStopDirOf projectTree ''/home/u'' (pathResolve projectTree ''/home/u/proj/pkg/app''))
     (pathResolve projectTree ''/home/u/proj/pkg/app'') =
     [[''home'', ''u'', ''proj'', ''pkg'', ''app''], [''home'', ''u'', ''proj'', ''pkg''],
      [''home'', ''u'', ''proj''], [''home'', ''u'']]"
  by code_simp

lemma projectTree_stop:
  "find (\<lambda>d. isDirectory projectTree (d @ [''.git'']))
     (ancestors (pathResolve projectTree ''/home/u/proj/pkg/app'') @ [[]]) =
     Some [''home'', ''u'', ''proj'']"
  by code_simp

theorem upward_scan_levels_witness:
  "upwardPathsOf projectTree ''/home/u/proj/pkg/app'' ''/home/u'' ''CTX.md'' =
     rev (filter (\<lambda>p. isReadable projectTree p \<and>
                      p \<noteq> globalMemoryPathOf projectTree ''/home/u'' ''CTX.md'')
            (map (\<lambda>d. d @ [''CTX.md''])
               [[''home'', ''u'', ''proj'', ''pkg'', ''app''], [''home'', ''u'', ''proj'', ''pkg''],
                [''home'', ''u'', ''proj''], [''home'', ''u'']])) \<and>
   ultimateStopDirOf projectTree ''/home/u'' (pathResolve projectTree ''/home/u/proj/pkg/app'') =
     dirname [''home'', ''u'', ''proj'']"
  using upward_scan_levels [of projectTree "''/home/u/proj/pkg/app''" "''/home/u''" "''CTX.md''"]
  by (simp add: projectTree_levels projectTree_stop)

section \<open>The concatenated document and the file count\<close>

lemma blocks_of_read_files:
  "map the
     (filter (\<lambda>block. block \<noteq> None)
        (map (instructionBlock env cwd)
           (filter (\<lambda>item. content item \<noteq> None)
              (map (\<lambda>p. \<lparr>filePath = p, content = readFileWithImports env p fmt\<rparr>) ps)))) =
   concat (map (\<lambda>p. case readFileWithImports env p fmt of
                       None \<Rightarrow> []
                     | Some c \<Rightarrow>
                         if trim c = [] then []
                         else [contextBlock
                                 (if pathIsAbsolute env p then pathRelative env cwd p else p)
                                 (trim c)]) ps)"
  by (induction ps) (auto simp: instructionBlock_def Let_def split: option.splits)

text \<open>
  Of three discovered files one has text, one is blank and one cannot be read: the
  document has one block, and the count is three.
\<close>

theorem fileCount_contributing_counterexample:
  "readFileWithImports threeFilesTree ''/w/CTX.md'' Tree = Some (''  Be brief.'' @ nl) \<and>
   readFileWithImports threeFilesTree ''/w/lib/CTX.md'' Tree = Some ''   '' \<and>
   readFileWithImports threeFilesTree ''/w/src/CTX.md'' Tree = None \<and>
   loadServerHierarchicalMemory threeFilesTree ''/w'' [] [] Tree 200 =
     \<lparr>memoryContent =
        ''--- Context from: CTX.md ---'' @ nl @ ''Be brief.'' @ nl @
        ''--- End of Context from: CTX.md ---'',
      fileCount = 3\<rparr>"
  by code_simp

text \<open>
  Claim C8, amended. \<open>loadServerHierarchicalMemory\<close> returns one document in which the
  trimmed content of every discovered file that could be read and is not empty after
  trimming is wrapped in the delimiters \<open>--- Context from: <path> ---\<close> and
  \<open>--- End of Context from: <path> ---\<close>, the blocks being joined by an empty line; a
  file with null content or with content that is empty after trimming contributes no
  block. The \<open>fileCount\<close> returned with it is the number of discovered context files,
  whether they contribute a block or not.
\<close>

theorem memory_document_and_file_count:
  "loadServerHierarchicalMemory env cwd includeDirs extensionPaths fmt maxDirs =
     (let filePaths = map pathString
            (getContextFilePathsInternal env cwd includeDirs (homedir env) extensionPaths
               maxDirs)
      in \<lparr>memoryContent =
            joinWith (nl @ nl)
              (concat (map (\<lambda>p. case readFileWithImports env p fmt of
                                  None \<Rightarrow> []
                                | Some c \<Rightarrow>
                                    if trim c = [] then []
                                    else [contextBlock
                                            (if pathIsAbsolute env p then pathRelative env cwd p
                                             else p)
                                            (trim c)]) filePaths)),
          fileCount = length filePaths\<rparr>)"
proof (cases "getContextFilePathsInternal env cwd includeDirs (homedir env) extensionPaths maxDirs = []")
  case True
  then show ?thesis by (simp add: loadServerHierarchicalMemory_def)
next
  case False
  have doc: "concatenateInstructions env (readContextFiles env ps fmt) cwd =
      joinWith (nl @ nl)
        (concat (map (\<lambda>p. case readFileWithImports env p fmt of
                            None \<Rightarrow> []
                          | Some c \<Rightarrow>
                              if trim c = [] then []
                              else [contextBlock
                                      (if pathIsAbsolute env p then pathRelative env cwd p
                                       else p)
                                      (trim c)]) ps))" for ps
    unfolding concatenateInstructions_def readContextFiles_def blocks_of_read_files
    by (rule refl)
  show ?thesis
    using False by (simp add: loadServerHierarchicalMemory_def Let_def doc)
       (simp add: readContextFiles_def)
qed

lemma threeFilesTree_paths:
  "map pathString
     (getContextFilePathsInternal threeFilesTree ''/w'' [] (homedir threeFilesTree) [] 200) =
   [''/w/CTX.md'', ''/w/lib/CTX.md'', ''/w/src/CTX.md'']"
  by code_simp

lemma threeFilesTree_blocks:
  "concat (map (\<lambda>p. case readFileWithImports threeFilesTree p Tree of
                      None \<Rightarrow> []
                    | Some c \<Rightarrow>
                        if trim c = [] then []
                        else [contextBlock
                                (if pathIsAbsolute threeFilesTree p
                                 then pathRelative threeFilesTree ''/w'' p else p)
                                (trim c)])
             [''/w/CTX.md'', ''/w/lib/CTX.md'', ''/w/src/CTX.md'']) =
   [contextBlock ''CTX.md'' ''Be brief.'']"
  by code_simp

theorem memory_document_and_file_count_witness:
  "loadServerHierarchicalMemory threeFilesTree ''/w'' [] [] Tree 200 =
     \<lparr>memoryContent = contextBlock ''CTX.md'' ''Be brief.'', fileCount = 3\<rparr>"
  using memory_document_and_file_count [of threeFilesTree "''/w''" "[]" "[]" Tree 200,
      unfolded Let_def threeFilesTree_paths threeFilesTree_blocks]
  by simp

end
